theory Spec2Isabelle
  imports Main "HOL-Library.Word"
begin

unbundle bit_operations_syntax

section \<open>Data model (pchtxt.hpp)\<close>

text \<open>
  \<^verbatim>\<open>std::string\<close> is a list of 8-bit characters (\<^typ>\<open>string\<close>), \<^verbatim>\<open>std::vector<uint8_t>\<close> a list of
  \<^typ>\<open>8 word\<close>, \<^verbatim>\<open>uint32_t\<close> a \<^typ>\<open>32 word\<close>, \<^verbatim>\<open>std::list\<close> a list. The output stream of
  \<^verbatim>\<open>writeIps\<close> is the list of bytes written; the log stream is the list of the lines
  written to it (one per \<^verbatim>\<open>std::endl\<close>).
\<close>

record PatchContent =
  offset :: "32 word"
  "value" :: "8 word list"

datatype PatchType = BIN | HEAP | AMS

record Patch =
  name :: string
  author :: string
  type :: PatchType
  enabled :: bool
  lineNum :: int
  contents :: "PatchContent list"

datatype TargetType = NSO | NRO

record PatchCollection =
  buildId :: string
  targetType :: TargetType
  patches :: "Patch list"

record PatchTextMeta =
  title :: string
  programId :: string
  url :: string

record PatchTextOutput =
  meta :: PatchTextMeta
  collections :: "PatchCollection list"

text \<open>Value-initialised structs: \<^verbatim>\<open>Patch{}\<close>, \<^verbatim>\<open>PatchCollection{}\<close>, \<^verbatim>\<open>PatchTextOutput{}\<close>.\<close>

definition emptyPatch :: Patch where
  "emptyPatch = \<lparr>name = [], author = [], type = BIN, enabled = False, lineNum = 0, contents = []\<rparr>"

definition emptyPatchCollection :: PatchCollection where
  "emptyPatchCollection = \<lparr>buildId = [], targetType = NSO, patches = []\<rparr>"

definition emptyMeta :: PatchTextMeta where
  "emptyMeta = \<lparr>title = [], programId = [], url = []\<rparr>"

definition emptyOutput :: PatchTextOutput where
  "emptyOutput = \<lparr>meta = emptyMeta, collections = []\<rparr>"

section \<open>Character classes and string utilities\<close>

text \<open>
  \<^verbatim>\<open>std::isspace\<close>, \<^verbatim>\<open>std::isxdigit\<close> and \<^verbatim>\<open>std::tolower\<close> in the "C" locale.
\<close>

definition isspace :: "char \<Rightarrow> bool" where
  "isspace ch = (ch \<in> set [CHR 0x20, CHR 0x09, CHR 0x0A, CHR 0x0B, CHR 0x0C, CHR 0x0D])"

definition isxdigit :: "char \<Rightarrow> bool" where
  "isxdigit ch = (ch \<in> set ''0123456789abcdefABCDEF'')"

definition tolower :: "char \<Rightarrow> char" where
  "tolower ch = (if ch \<in> set ''ABCDEFGHIJKLMNOPQRSTUVWXYZ''
                 then char_of (of_char ch + (32::nat)) else ch)"

definition isStartsWith :: "string \<Rightarrow> string \<Rightarrow> bool" where
  "isStartsWith checkedStr targetStr =
     (length checkedStr \<ge> length targetStr \<and> take (length targetStr) checkedStr = targetStr)"

definition ltrim :: "string \<Rightarrow> string" where
  "ltrim str = dropWhile isspace str"

definition rtrim :: "string \<Rightarrow> string" where
  "rtrim str = rev (dropWhile isspace (rev str))"

definition trim :: "string \<Rightarrow> string" where
  "trim str = rtrim (ltrim str)"

definition firstToken :: "string \<Rightarrow> string" where
  "firstToken str = takeWhile (\<lambda>ch. \<not> isspace ch) str"

text \<open>The loop of \<^verbatim>\<open>commentPos\<close>: \<open>pos\<close> counts the characters before the first \<^verbatim>\<open>/\<close> outside a string.\<close>

fun commentPosLoop :: "bool \<Rightarrow> nat \<Rightarrow> string \<Rightarrow> nat" where
  "commentPosLoop isInString pos [] = pos"
| "commentPosLoop isInString pos (ch # rest) =
     (if ch = CHR ''/'' \<and> \<not> isInString then pos
      else commentPosLoop (if ch = CHR 0x22 then \<not> isInString else isInString) (pos + 1) rest)"

definition commentPos :: "string \<Rightarrow> nat" where
  "commentPos str = commentPosLoop False 0 str"

definition getLineCommentContent :: "string \<Rightarrow> string" where
  "getLineCommentContent str =
     dropWhile (\<lambda>ch. isspace ch \<or> ch = CHR ''/'') (drop (commentPos str) str)"

definition getLineNoComment :: "string \<Rightarrow> string" where
  "getLineNoComment lineStr = rtrim (take (commentPos lineStr) lineStr)"

definition getStringToLowerCase :: "string \<Rightarrow> string" where
  "getStringToLowerCase str = map tolower str"

definition stringIsHex :: "string \<Rightarrow> bool" where
  "stringIsHex str = list_all isxdigit str"

text \<open>
  \<^verbatim>\<open>str.erase(0, min(str.find_first_not_of('0'), str.size() - 1))\<close>: \<^verbatim>\<open>find_first_not_of\<close> is the number
  of leading zeros, or \<^verbatim>\<open>npos\<close> (the largest \<^verbatim>\<open>size_t\<close>) when there is no other character.
\<close>

definition trimZeros :: "string \<Rightarrow> string" where
  "trimZeros str =
     drop (min (length (takeWhile (\<lambda>ch. ch = CHR ''0'') str)) (length str - 1)) str"

definition escapeChar :: "char \<Rightarrow> char" where
  "escapeChar ch =
     (if ch = CHR ''a'' then CHR 0x07
      else if ch = CHR ''b'' then CHR 0x08
      else if ch = CHR ''f'' then CHR 0x0C
      else if ch = CHR ''n'' then CHR 0x0A
      else if ch = CHR ''r'' then CHR 0x0D
      else if ch = CHR ''t'' then CHR 0x09
      else if ch = CHR ''v'' then CHR 0x0B
      else ch)"

text \<open>
  \<^verbatim>\<open>escapeString\<close> rewrites the string in place; the result is the sequence of characters written at
  \<^verbatim>\<open>targetPos\<close>. A backslash that is the last character is copied.
\<close>

fun escapeString :: "string \<Rightarrow> string" where
  "escapeString [] = []"
| "escapeString [ch] = [ch]"
| "escapeString (ch # nxt # rest) =
     (if ch = CHR 0x5C then escapeChar nxt # escapeString rest
      else ch # escapeString (nxt # rest))"

definition getHexCharNibble :: "char \<Rightarrow> 8 word" where
  "getHexCharNibble ch =
     (let n = (of_char ch :: nat) in
      if 65 \<le> n \<and> n \<le> 70 then of_nat (n - 65 + 10)
      else if 97 \<le> n \<and> n \<le> 102 then of_nat (n - 97 + 10)
      else of_nat n - 48)"

text \<open>\<^verbatim>\<open>getHexByte\<close> reads the two characters at the iterator and the one after it.\<close>

definition getHexByte :: "char \<Rightarrow> char \<Rightarrow> 8 word" where
  "getHexByte hi lo = push_bit 4 (getHexCharNibble hi) + getHexCharNibble lo"

text \<open>\<^verbatim>\<open>str.rfind(c)\<close> for a one-character pattern: the last index of \<open>c\<close>, \<open>None\<close> for \<^verbatim>\<open>npos\<close>.\<close>

definition rfind :: "string \<Rightarrow> char \<Rightarrow> nat option" where
  "rfind str c =
     (if c \<in> set str then Some (length str - 1 - length (takeWhile (\<lambda>ch. ch \<noteq> c) (rev str)))
      else None)"

text \<open>\<^verbatim>\<open>std::find(first, end, c)\<close> on positions: the first index of \<open>c\<close> at or after \<open>pos\<close>.\<close>

definition findFrom :: "string \<Rightarrow> nat \<Rightarrow> char \<Rightarrow> nat option" where
  "findFrom str pos c =
     (if c \<in> set (drop pos str)
      then Some (pos + length (takeWhile (\<lambda>ch. ch \<noteq> c) (drop pos str)))
      else None)"

section \<open>The binary patch writer\<close>

text \<open>
  The output stream is passed in and returned: \<^verbatim>\<open>ostream.write(p, n)\<close> appends \<open>n\<close> bytes.
\<close>

definition ostreamWrite :: "8 word list \<Rightarrow> 8 word list \<Rightarrow> 8 word list" where
  "ostreamWrite ostream bytes = ostream @ bytes"

definition asBytes :: "string \<Rightarrow> 8 word list" where
  "asBytes str = map of_char str"

text \<open>
  \<^verbatim>\<open>for (auto rightShift : {3, 2, 1, 0})\<close> writes \<^verbatim>\<open>(offset >> rightShift * 8) & 0xFF\<close>, one byte at a time.
\<close>

fun writeOffsetBytes :: "32 word \<Rightarrow> nat list \<Rightarrow> 8 word list \<Rightarrow> 8 word list" where
  "writeOffsetBytes off [] ostream = ostream"
| "writeOffsetBytes off (rightShift # shifts) ostream =
     writeOffsetBytes off shifts
       (ostreamWrite ostream [ucast (drop_bit (rightShift * 8) off AND 0xFF)])"

text \<open>
  \<^verbatim>\<open>for (auto rightShift : {1, 0})\<close> writes \<^verbatim>\<open>(value.size() >> rightShift * 8) & 0xFF\<close>; the size is a
  \<^verbatim>\<open>size_t\<close>, a natural number here.
\<close>

fun writeSizeBytes :: "nat \<Rightarrow> nat list \<Rightarrow> 8 word list \<Rightarrow> 8 word list" where
  "writeSizeBytes sz [] ostream = ostream"
| "writeSizeBytes sz (rightShift # shifts) ostream =
     writeSizeBytes sz shifts
       (ostreamWrite ostream [of_nat (drop_bit (rightShift * 8) sz AND 0xFF)])"

fun writeContents :: "PatchContent list \<Rightarrow> 8 word list \<Rightarrow> 8 word list" where
  "writeContents [] ostream = ostream"
| "writeContents (patchContent # others) ostream =
     writeContents others
       (ostreamWrite
          (writeSizeBytes (length (value patchContent)) [1, 0]
             (writeOffsetBytes (offset patchContent) [3, 2, 1, 0] ostream))
          (value patchContent))"

fun writePatches :: "Patch list \<Rightarrow> 8 word list \<Rightarrow> 8 word list" where
  "writePatches [] ostream = ostream"
| "writePatches (patch # others) ostream =
     (if type patch \<noteq> BIN \<or> enabled patch = False then writePatches others ostream
      else writePatches others (writeContents (contents patch) ostream))"

definition writeIps :: "PatchCollection \<Rightarrow> 8 word list \<Rightarrow> 8 word list" where
  "writeIps patchCollection ostream =
     ostreamWrite (writePatches (patches patchCollection) (ostreamWrite ostream (asBytes ''IPS32'')))
       (asBytes ''EEOF'')"

section \<open>Formatting of the log\<close>

text \<open>\<^verbatim>\<open>operator<<\<close> on integers: decimal by default, lower-case hexadecimal after \<^verbatim>\<open>std::hex\<close>.\<close>

definition digitChar :: "nat \<Rightarrow> char" where
  "digitChar d = (if d < 10 then char_of (48 + d) else char_of (87 + d))"

function showBase :: "nat \<Rightarrow> nat \<Rightarrow> string" where
  "showBase b n =
     (if b < 2 \<or> n < b then [digitChar n] else showBase b (n div b) @ [digitChar (n mod b)])"
  by pat_completeness auto
termination
  by (relation "measure (\<lambda>(b, n). n)") auto

declare showBase.simps [simp del]

definition showNat :: "nat \<Rightarrow> string" where
  "showNat n = showBase 10 n"

definition showInt :: "int \<Rightarrow> string" where
  "showInt i = (if i < 0 then CHR ''-'' # showNat (nat (- i)) else showNat (nat i))"

text \<open>\<^verbatim>\<open>std::hex << std::setfill('0') << std::setw(w) << n\<close>: padded on the left up to \<open>w\<close> characters.\<close>

definition showHexPadded :: "nat \<Rightarrow> nat \<Rightarrow> string" where
  "showHexPadded w n = replicate (w - length (showBase 16 n)) (CHR ''0'') @ showBase 16 n"

section \<open>Library conversions\<close>

text \<open>
  \<^verbatim>\<open>std::stoi(str, nullptr, 0)\<close> is \<^verbatim>\<open>strtol\<close> with base 0 and a range check: leading white space
  is skipped, a sign is optional, \<^verbatim>\<open>0x\<close>/\<^verbatim>\<open>0X\<close> before a hexadecimal digit selects base 16, another
  leading \<^verbatim>\<open>0\<close> selects base 8, anything else base 10; the longest run of digits of that base is
  converted and what follows is ignored. No digit at all raises \<^verbatim>\<open>std::invalid_argument\<close>, a value
  outside \<^verbatim>\<open>int\<close> raises \<^verbatim>\<open>std::out_of_range\<close>. Neither exception is caught by the parser.
\<close>

datatype exn = invalid_argument | out_of_range

definition digitValue :: "char \<Rightarrow> nat" where
  "digitValue ch =
     (let n = (of_char ch :: nat) in
      if 48 \<le> n \<and> n \<le> 57 then n - 48
      else if 97 \<le> n \<and> n \<le> 122 then n - 97 + 10
      else if 65 \<le> n \<and> n \<le> 90 then n - 65 + 10
      else 36)"

definition digitsValue :: "nat \<Rightarrow> string \<Rightarrow> nat" where
  "digitsValue base str = foldl (\<lambda>acc ch. acc * base + digitValue ch) 0 str"

definition stoi :: "string \<Rightarrow> exn + int" where
  "stoi str =
     (let s1 = dropWhile isspace str;
          negative = (take 1 s1 = ''-'');
          s2 = (if take 1 s1 = ''-'' \<or> take 1 s1 = ''+'' then drop 1 s1 else s1);
          isHex = ((take 2 s2 = ''0x'' \<or> take 2 s2 = ''0X'')
                   \<and> take 1 (drop 2 s2) \<noteq> [] \<and> list_all (\<lambda>ch. digitValue ch < 16) (take 1 (drop 2 s2)));
          base = (if isHex then 16 else if take 1 s2 = ''0'' then 8 else 10);
          s3 = (if isHex then drop 2 s2 else s2);
          digits = takeWhile (\<lambda>ch. digitValue ch < base) s3;
          magnitude = int (digitsValue base digits);
          v = (if negative then - magnitude else magnitude)
      in if digits = [] then Inl invalid_argument
         else if v < - (2 ^ 31) \<or> 2 ^ 31 - 1 < v then Inl out_of_range
         else Inr v)"

text \<open>
  \<^verbatim>\<open>std::stoul(offsetStr, nullptr, 16)\<close> is only called on a non-empty string of at most eight
  hexadecimal digits (lines 423 to 432 of pchtxt.cpp), where it returns the value of the digits
  and raises nothing.
\<close>

definition stoul16 :: "string \<Rightarrow> nat" where
  "stoul16 str = digitsValue 16 str"

section \<open>The parser state\<close>

text \<open>
  The local variables of \<^verbatim>\<open>parsePchtxt\<close>, and the log stream. \<^verbatim>\<open>curOffsetShift\<close> is an \<^verbatim>\<open>int\<close>, kept
  as the 32-bit word of its two's complement (\<^term>\<open>sint\<close> reads it back): it is only ever added
  to a \<^verbatim>\<open>uint32_t\<close>, which converts it to that word.
\<close>

record pstate =
  result :: PatchTextOutput
  curLineNum :: int
  lastCommentLine :: string
  curPatch :: Patch
  curPatchCollection :: PatchCollection
  curOffsetShift :: "32 word"
  curIsBigEndian :: bool
  isAcceptingPatch :: bool
  stopParsing :: bool
  logDebugInfo :: bool
  logOs :: "string list"

text \<open>
  What one pass of the loop body does: go on with a new state, leave the function by
  \<^verbatim>\<open>return {}\<close>, or leave it by an exception. The last two carry the log written so far.
\<close>

datatype lineResult = Continue pstate | ReturnEmpty "string list" | Throw exn "string list"

definition logLine :: "string \<Rightarrow> pstate \<Rightarrow> pstate" where
  "logLine msg st = st\<lparr>logOs := logOs st @ [msg]\<rparr>"

definition lineTag :: "pstate \<Rightarrow> string" where
  "lineTag st = ''L'' @ showInt (curLineNum st)"

definition logDebug :: "string \<Rightarrow> pstate \<Rightarrow> pstate" where
  "logDebug msg st = (if logDebugInfo st then logLine msg st else st)"

definition abortParsing :: "string \<Rightarrow> pstate \<Rightarrow> lineResult" where
  "abortParsing msg st = ReturnEmpty (logOs st @ [msg])"

text \<open>\<^verbatim>\<open>str[0]\<close>: the terminating NUL when the string is empty.\<close>

definition charAt0 :: "string \<Rightarrow> char" where
  "charAt0 str = (case str of [] \<Rightarrow> CHR 0x00 | ch # _ \<Rightarrow> ch)"

text \<open>
  \<^verbatim>\<open>curPatchCollection.patches.push_back(curPatch)\<close> with its log line, as it stands in four places.
\<close>

definition pushCurPatch :: "pstate \<Rightarrow> pstate" where
  "pushCurPatch st =
     logLine (lineTag st @ '': patch read: '' @ name (curPatch st))
       (st\<lparr>curPatchCollection :=
             (curPatchCollection st)\<lparr>patches := patches (curPatchCollection st) @ [curPatch st]\<rparr>\<rparr>)"

text \<open>\<^verbatim>\<open>result.collections.push_back(curPatchCollection)\<close>.\<close>

definition pushCurCollection :: "pstate \<Rightarrow> pstate" where
  "pushCurCollection st =
     st\<lparr>result := (result st)\<lparr>collections := collections (result st) @ [curPatchCollection st]\<rparr>\<rparr>"

section \<open>Directive lines\<close>

text \<open>
  The name and the author of a patch, from the last comment line. The positions are \<^verbatim>\<open>size_t\<close>:
  when \<^verbatim>\<open>]\<close> is missing or stands before \<^verbatim>\<open>[\<close>, the count \<^verbatim>\<open>authorEndPos - authorStartPos - 1\<close> wraps
  to a number beyond the end of the string and \<^verbatim>\<open>substr\<close> takes the rest.
\<close>

definition patchNameOf :: "string \<Rightarrow> string" where
  "patchNameOf lastComment =
     rtrim (case rfind lastComment (CHR ''['') of
              None \<Rightarrow> lastComment
            | Some authorStartPos \<Rightarrow> take authorStartPos lastComment)"

definition authorOf :: "string \<Rightarrow> string" where
  "authorOf lastComment =
     trim (case rfind lastComment (CHR ''['') of
             None \<Rightarrow> []
           | Some authorStartPos \<Rightarrow>
               (case rfind lastComment (CHR '']'') of
                  None \<Rightarrow> drop (authorStartPos + 1) lastComment
                | Some authorEndPos \<Rightarrow>
                    if authorStartPos < authorEndPos
                    then take (authorEndPos - authorStartPos - 1) (drop (authorStartPos + 1) lastComment)
                    else drop (authorStartPos + 1) lastComment))"

text \<open>The branch of \<^verbatim>\<open>@enabled\<close> and \<^verbatim>\<open>@disabled\<close> (lines 232 to 281).\<close>

definition tagEnabled :: "pstate \<Rightarrow> string \<Rightarrow> string \<Rightarrow> lineResult" where
  "tagEnabled st curTag lineNoCommentLower =
     (if buildId (curPatchCollection st) = []
      then abortParsing (lineTag st @ '': ERROR: missing build id, abort parsing'') st
      else
        let st1 = (if contents (curPatch st) \<noteq> []
                   then (pushCurPatch st)\<lparr>curPatch := emptyPatch\<rparr> else st);
            p1 = (curPatch st1)\<lparr>enabled := (curTag = ''@enabled''), lineNum := curLineNum st1\<rparr>;
            p2 = (if type p1 \<noteq> AMS
                  then p1\<lparr>name := patchNameOf (lastCommentLine st1),
                          author := authorOf (lastCommentLine st1)\<rparr>
                  else p1);
            lineAfterTag = ltrim (drop (length curTag) lineNoCommentLower);
            patchType = firstToken lineAfterTag;
            p3 = (if patchType = ''heap'' then p2\<lparr>type := HEAP\<rparr>
                  else if patchType = ''ams'' then p2\<lparr>type := AMS\<rparr>
                  else p2);
            st2 = st1\<lparr>curPatch := p3, isAcceptingPatch := True\<rparr>
        in Continue (logDebug (lineTag st2 @ '': parsing patch: '' @ name (curPatch st2)) st2))"

text \<open>
  \<^verbatim>\<open>std::find_if\<close> over the collections and \<^verbatim>\<open>erase\<close> of the iterator it returns: the first
  collection with the build id is taken out of the list.
\<close>

fun eraseFirst :: "('a \<Rightarrow> bool) \<Rightarrow> 'a list \<Rightarrow> 'a list" where
  "eraseFirst P [] = []"
| "eraseFirst P (x # xs) = (if P x then xs else x # eraseFirst P xs)"

text \<open>The branch of \<^verbatim>\<open>@flag nsobid\<close> and \<^verbatim>\<open>@flag nrobid\<close> (lines 298 to 335).\<close>

definition flagBuildId :: "pstate \<Rightarrow> string \<Rightarrow> string \<Rightarrow> pstate" where
  "flagBuildId st flagType flagValue =
     (let st1 = (if contents (curPatch st) \<noteq> [] then pushCurPatch st else st);
          st2 = st1\<lparr>curPatch := emptyPatch\<rparr>;
          st3 = (if patches (curPatchCollection st2) \<noteq> []
                 then (logDebug (lineTag st2 @ '': parsing stopped for '' @ buildId (curPatchCollection st2))
                         (pushCurCollection st2))\<lparr>curPatchCollection := emptyPatchCollection\<rparr>
                 else st2);
          st4 = (case find (\<lambda>collection. buildId collection = flagValue) (collections (result st3)) of
                   Some existingCollection \<Rightarrow>
                     st3\<lparr>curPatchCollection := existingCollection,
                         result := (result st3)\<lparr>collections :=
                           eraseFirst (\<lambda>collection. buildId collection = flagValue)
                             (collections (result st3))\<rparr>\<rparr>
                 | None \<Rightarrow>
                     st3\<lparr>curPatchCollection :=
                           (curPatchCollection st3)\<lparr>buildId := flagValue,
                             targetType := (if flagType = ''nrobid'' then NRO else NSO)\<rparr>\<rparr>);
          st5 = st4\<lparr>isAcceptingPatch := False\<rparr>
      in logDebug (lineTag st5 @ '': parsing started for '' @ buildId (curPatchCollection st5)) st5)"

text \<open>
  The branch of \<^verbatim>\<open>@flag\<close> (lines 283 to 349). The flag's name is the first token after the tag,
  compared in lower case; its value is what follows the name, as written.
\<close>

definition flagContentOf :: "string \<Rightarrow> string \<Rightarrow> string" where
  "flagContentOf curTag lineNoComment = ltrim (drop (length curTag) lineNoComment)"

definition flagTokenOf :: "string \<Rightarrow> string \<Rightarrow> string" where
  "flagTokenOf curTag lineNoComment = ltrim (firstToken (flagContentOf curTag lineNoComment))"

definition flagValueOf :: "string \<Rightarrow> string \<Rightarrow> string" where
  "flagValueOf curTag lineNoComment =
     ltrim (drop (length (flagTokenOf curTag lineNoComment)) (flagContentOf curTag lineNoComment))"

definition flagTypeOf :: "string \<Rightarrow> string \<Rightarrow> string" where
  "flagTypeOf curTag lineNoComment = getStringToLowerCase (flagTokenOf curTag lineNoComment)"

definition tagFlag :: "pstate \<Rightarrow> string \<Rightarrow> string \<Rightarrow> lineResult" where
  "tagFlag st curTag lineNoComment =
     (let flagValue = flagValueOf curTag lineNoComment;
          flagType = flagTypeOf curTag lineNoComment
      in if flagType = ''be'' then Continue (st\<lparr>curIsBigEndian := True\<rparr>)
         else if flagType = ''le'' then Continue (st\<lparr>curIsBigEndian := False\<rparr>)
         else if flagType = ''nsobid'' \<or> flagType = ''nrobid''
           then Continue (flagBuildId st flagType flagValue)
         else if flagType = ''offset_shift''
           then (case stoi flagValue of
                   Inl e \<Rightarrow> Throw e (logOs st)
                 | Inr shift \<Rightarrow>
                     Continue (logDebug (lineTag st @ '': offset shift is now '' @ showInt shift)
                                 (st\<lparr>curOffsetShift := word_of_int shift\<rparr>)))
         else if flagType = ''debug_info'' \<or> flagType = ''print_values''
           then Continue (logLine (lineTag st @ '': additional debug info enabled'')
                            (st\<lparr>logDebugInfo := True\<rparr>))
         else Continue (logLine (lineTag st @ '': WARNING ignored unrecognized flag type: '' @ flagType) st))"

text \<open>The branch of the legacy \<^verbatim>\<open>@nsobid\<close> line (lines 351 to 362).\<close>

definition tagLegacyNsobid :: "pstate \<Rightarrow> string \<Rightarrow> string \<Rightarrow> lineResult" where
  "tagLegacyNsobid st lineNoComment lineNoCommentLower =
     (if \<not> (length lineNoCommentLower > length ''@nsobid'' + 1)
      then abortParsing (lineTag st @ '': ERROR: legacy nsobid tag missing value'') st
      else
        let st1 = st\<lparr>curPatchCollection :=
                       (curPatchCollection st)\<lparr>targetType := NSO,
                         buildId := ltrim (drop (length ''@nsobid'' + 1) lineNoComment)\<rparr>\<rparr>
        in Continue (logDebug (lineTag st1 @ '': parsing started for '' @ buildId (curPatchCollection st1)
                                 @ '' (legacy style bid)'') st1))"

definition META_TAGS :: "string list" where
  "META_TAGS = [''@title'', ''@program'', ''@url'', ''@nsobid'']"

text \<open>The case \<^verbatim>\<open>'@'\<close> of the switch (lines 224 to 368).\<close>

definition tagLine :: "pstate \<Rightarrow> string \<Rightarrow> string \<Rightarrow> lineResult" where
  "tagLine st lineNoComment lineNoCommentLower =
     (let curTag = firstToken lineNoCommentLower
      in if curTag = ''@stop''
           then Continue (logLine (lineTag st @ '': done parsing patches (reached tag @stop)'')
                            (st\<lparr>stopParsing := True\<rparr>))
         else if curTag = ''@enabled'' \<or> curTag = ''@disabled''
           then tagEnabled st curTag lineNoCommentLower
         else if curTag = ''@flag'' then tagFlag st curTag lineNoComment
         else if isStartsWith lineNoCommentLower ''@nsobid''
           then tagLegacyNsobid st lineNoComment lineNoCommentLower
         else if curTag \<notin> set META_TAGS
           then Continue (logLine (lineTag st @ '': WARNING ignored unrecognized tag: '' @ curTag) st)
         else Continue st)"

text \<open>The case \<^verbatim>\<open>'['\<close> of the switch: the header of an AMS cheat (lines 375 to 395).\<close>

definition amsCheatNameOf :: "string \<Rightarrow> string" where
  "amsCheatNameOf lineNoComment =
     trim (case rfind lineNoComment (CHR '']'') of
             None \<Rightarrow> drop 1 lineNoComment
           | Some closePos \<Rightarrow>
               if closePos = 0 then drop 1 lineNoComment
               else take (closePos - 1) (drop 1 lineNoComment))"

definition cheatHeader :: "pstate \<Rightarrow> string \<Rightarrow> lineResult" where
  "cheatHeader st lineNoComment =
     (if buildId (curPatchCollection st) = []
      then abortParsing (lineTag st @ '': ERROR: missing build id, abort parsing'') st
      else
        let st1 = (if contents (curPatch st) \<noteq> [] then pushCurPatch st else st);
            st2 = st1\<lparr>curPatch := \<lparr>name = amsCheatNameOf lineNoComment, author = [], type = AMS,
                                     enabled = True, lineNum = curLineNum st1, contents = []\<rparr>\<rparr>
        in Continue (logDebug (lineTag st2 @ '': parsing AMS cheat: '' @ name (curPatch st2)) st2))"

section \<open>Content lines\<close>

text \<open>
  The two loops over a hexadecimal token (lines 485 to 496). Little endian walks the pairs from the
  front; big endian starts at the end and steps back by two until it reaches the front. Both are
  only entered with a token of even length.
\<close>

fun decodeLittleEndian :: "string \<Rightarrow> 8 word list" where
  "decodeLittleEndian (hi # lo # rest) = getHexByte hi lo # decodeLittleEndian rest"
| "decodeLittleEndian _ = []"

function decodeBigEndian :: "string \<Rightarrow> nat \<Rightarrow> 8 word list" where
  "decodeBigEndian valueTokenStr curBytePos =
     (if curBytePos = 0 then []
      else getHexByte (valueTokenStr ! (curBytePos - 2)) (valueTokenStr ! (curBytePos - 2 + 1))
             # decodeBigEndian valueTokenStr (curBytePos - 2))"
  by pat_completeness auto
termination
  by (relation "measure (\<lambda>(valueTokenStr, curBytePos). curBytePos)") auto

declare decodeBigEndian.simps [simp del]

definition decodeToken :: "bool \<Rightarrow> string \<Rightarrow> 8 word list" where
  "decodeToken bigEndian valueTokenStr =
     (if bigEndian then decodeBigEndian valueTokenStr (length valueTokenStr)
      else decodeLittleEndian valueTokenStr)"

datatype hexError = BadLength string | NotHex string

text \<open>The loop over the value tokens of a line (lines 463 to 497).\<close>

function parseHexValues :: "bool \<Rightarrow> string \<Rightarrow> 8 word list \<Rightarrow> hexError + 8 word list" where
  "parseHexValues bigEndian valueStr bytes =
     (if firstToken valueStr = [] then Inr bytes
      else if length (firstToken valueStr) mod 2 \<noteq> 0 then Inl (BadLength (firstToken valueStr))
      else if \<not> stringIsHex (firstToken valueStr) then Inl (NotHex (firstToken valueStr))
      else parseHexValues bigEndian
             (ltrim (drop (length (firstToken valueStr)) valueStr))
             (bytes @ decodeToken bigEndian (firstToken valueStr)))"
  by pat_completeness auto
termination
proof (relation "measure (\<lambda>(bigEndian, valueStr, bytes). length valueStr)")
  show "wf (measure (\<lambda>(bigEndian, valueStr, bytes). length valueStr))"
    by simp
next
  fix bigEndian :: bool and valueStr :: string and bytes :: "8 word list"
  assume tok: "firstToken valueStr \<noteq> []"
  then have "0 < length valueStr"
    by (auto simp: firstToken_def)
  moreover have "length (ltrim (drop (length (firstToken valueStr)) valueStr))
                   \<le> length valueStr - length (firstToken valueStr)"
    using length_dropWhile_le [of isspace "drop (length (firstToken valueStr)) valueStr"]
    by (simp add: ltrim_def)
  moreover have "0 < length (firstToken valueStr)"
    using tok by simp
  ultimately have "length (ltrim (drop (length (firstToken valueStr)) valueStr)) < length valueStr"
    by arith
  then show "((bigEndian, ltrim (drop (length (firstToken valueStr)) valueStr),
                bytes @ decodeToken bigEndian (firstToken valueStr)),
               (bigEndian, valueStr, bytes))
              \<in> measure (\<lambda>(bigEndian, valueStr, bytes). length valueStr)"
    by simp
qed

declare parseHexValues.simps [simp del]

text \<open>
  The search for the closing quote of a string value (lines 440 to 453): step past the current
  position, find the next \<^verbatim>\<open>"\<close>, and stop there unless the character before it is a backslash.
\<close>

function findStringClosing :: "string \<Rightarrow> nat \<Rightarrow> nat option" where
  "findStringClosing valueStr closingPosSearch =
     (case findFrom valueStr (closingPosSearch + 1) (CHR 0x22) of
        None \<Rightarrow> None
      | Some found \<Rightarrow>
          if valueStr ! (found - 1) \<noteq> CHR 0x5C then Some found
          else findStringClosing valueStr found)"
  by pat_completeness auto
termination
proof (relation "measure (\<lambda>(valueStr, closingPosSearch). length valueStr - closingPosSearch)")
  show "wf (measure (\<lambda>(valueStr, closingPosSearch). length valueStr - closingPosSearch))"
    by simp
next
  fix valueStr :: string and closingPosSearch found :: nat
  assume f: "findFrom valueStr (closingPosSearch + 1) (CHR 0x22) = Some found"
  let ?rest = "drop (closingPosSearch + 1) valueStr"
  from f have mem: "CHR 0x22 \<in> set ?rest"
    and eq: "found = closingPosSearch + 1 + length (takeWhile (\<lambda>ch. ch \<noteq> CHR 0x22) ?rest)"
    by (auto simp: findFrom_def split: if_splits)
  have "length (takeWhile (\<lambda>ch. ch \<noteq> CHR 0x22) ?rest)
          + length (dropWhile (\<lambda>ch. ch \<noteq> CHR 0x22) ?rest) = length ?rest"
    by (metis length_append takeWhile_dropWhile_id)
  moreover from mem have "dropWhile (\<lambda>ch. ch \<noteq> CHR 0x22) ?rest \<noteq> []"
    by (simp add: dropWhile_eq_Nil_conv)
  ultimately have "length (takeWhile (\<lambda>ch. ch \<noteq> CHR 0x22) ?rest) < length ?rest"
    by (cases "dropWhile (\<lambda>ch. ch \<noteq> CHR 0x22) ?rest") auto
  with eq have "closingPosSearch < found" "found < length valueStr"
    by auto
  then show "((valueStr, found), (valueStr, closingPosSearch))
               \<in> measure (\<lambda>(valueStr, closingPosSearch). length valueStr - closingPosSearch)"
    by auto
qed

declare findStringClosing.simps [simp del]

definition appendContent :: "PatchContent \<Rightarrow> pstate \<Rightarrow> pstate" where
  "appendContent patchContent st =
     st\<lparr>curPatch := (curPatch st)\<lparr>contents := contents (curPatch st) @ [patchContent]\<rparr>\<rparr>"

text \<open>Lines 500 to 506: the content is appended, and printed when debug info is on.\<close>

definition storeContent :: "PatchContent \<Rightarrow> pstate \<Rightarrow> pstate" where
  "storeContent patchContent st =
     logDebug (lineTag st @ '': offset: '' @ showHexPadded 8 (unat (offset patchContent))
                 @ '' value: '' @ concat (map (\<lambda>byte. showHexPadded 2 (unat byte)) (value patchContent))
                 @ '' len: '' @ showNat (length (value patchContent)))
       (appendContent patchContent st)"

text \<open>The value region of a content line (lines 437 to 498), after \<^verbatim>\<open>ltrim(valueStr)\<close>.\<close>

definition parseValue :: "pstate \<Rightarrow> 32 word \<Rightarrow> string \<Rightarrow> lineResult" where
  "parseValue st off valueStr =
     (if charAt0 valueStr = CHR 0x22
      then (case findStringClosing valueStr 0 of
              None \<Rightarrow> abortParsing (lineTag st @ '': ERROR: cannot find string closing: '' @ valueStr) st
            | Some closingPos \<Rightarrow>
                Continue (storeContent
                  \<lparr>offset = off,
                   value = asBytes (escapeString (take (closingPos - 1) (drop 1 valueStr))) @ [0]\<rparr> st))
      else (case parseHexValues (curIsBigEndian st) valueStr [] of
              Inl (BadLength valueTokenStr) \<Rightarrow>
                abortParsing (lineTag st @ '': ERROR: bad length for hex values: '' @ valueTokenStr) st
            | Inl (NotHex valueTokenStr) \<Rightarrow>
                abortParsing (lineTag st @ '': ERROR: not valid hex values: '' @ valueTokenStr) st
            | Inr bytes \<Rightarrow> Continue (storeContent \<lparr>offset = off, value = bytes\<rparr> st)))"

text \<open>The default case of the switch (lines 402 to 507).\<close>

definition contentLine :: "pstate \<Rightarrow> string \<Rightarrow> string \<Rightarrow> string \<Rightarrow> lineResult" where
  "contentLine st line lineNoComment lineNoCommentLower =
     (if \<not> isAcceptingPatch st then Continue st
      else if line = [] then Continue st
      else if type (curPatch st) = AMS
        then Continue (logDebug (lineTag st @ '': AMS cheat: '' @ lineNoComment)
                         (appendContent \<lparr>offset = 0, value = asBytes lineNoComment\<rparr> st))
      else
        let offsetStr = firstToken lineNoCommentLower;
            valueStr = drop (length offsetStr) lineNoCommentLower
        in if \<not> stringIsHex offsetStr
           then Continue (logDebug (lineTag st @ '': line ignored: invalid offset: '' @ line) st)
           else if length (trimZeros offsetStr) > 8
           then abortParsing (lineTag st @ '': ERROR: offset: '' @ trimZeros offsetStr @ '' out of range'') st
           else parseValue st (of_nat (stoul16 (trimZeros offsetStr)) + curOffsetShift st)
                  (ltrim valueStr))"

section \<open>The input stream\<close>

text \<open>
  The parser reads its input with \<^verbatim>\<open>std::getline\<close> until it fails. \<^term>\<open>getlines input\<close> is the
  list of the lines these calls return on a stream holding \<open>input\<close>: the text is cut at every
  newline, and a last line without a newline is a line. The call after the last line fails
  and sets \<^verbatim>\<open>failbit\<close>.
\<close>

fun splitLines :: "string \<Rightarrow> string \<Rightarrow> string list" where
  "splitLines cur [] = (if cur = [] then [] else [cur])"
| "splitLines cur (ch # rest) =
     (if ch = CHR 0x0A then cur # splitLines [] rest else splitLines (cur @ [ch]) rest)"

definition getlines :: "string \<Rightarrow> string list" where
  "getlines input = splitLines [] input"

section \<open>The metadata scanner\<close>

record mstate =
  metaResult :: PatchTextMeta
  legacyTitle :: string
  metaLineNum :: int
  metaLog :: "string list"

datatype metaStep = MetaNext mstate | MetaBreak mstate

definition metaLogLine :: "string \<Rightarrow> mstate \<Rightarrow> mstate" where
  "metaLogLine msg ms = ms\<lparr>metaLog := metaLog ms @ [msg]\<rparr>"

text \<open>
  Lines 564 to 574: \<^verbatim>\<open>tagToValueMap\<close> maps the three tags to references to the fields of the
  result. \<^verbatim>\<open>substr(1, size - 2)\<close> of a one-character value is empty.
\<close>

definition metaTagValue :: "string \<Rightarrow> string \<Rightarrow> string" where
  "metaTagValue curTag line =
     (let curTagValue = ltrim (drop (length curTag) line)
      in if charAt0 curTagValue = CHR 0x22 \<and> last curTagValue = CHR 0x22
         then take (length curTagValue - 2) (drop 1 curTagValue)
         else curTagValue)"

definition metaTag :: "mstate \<Rightarrow> string \<Rightarrow> string \<Rightarrow> mstate" where
  "metaTag ms curTag line =
     (let v = metaTagValue curTag line;
          r = metaResult ms;
          logged = metaLogLine (''L'' @ showInt (metaLineNum ms) @ '': meta: '' @ curTag @ ''='' @ v)
      in if curTag = ''@title'' then logged (ms\<lparr>metaResult := r\<lparr>title := v\<rparr>\<rparr>)
         else if curTag = ''@program'' then logged (ms\<lparr>metaResult := r\<lparr>programId := v\<rparr>\<rparr>)
         else if curTag = ''@url'' then logged (ms\<lparr>metaResult := r\<lparr>url := v\<rparr>\<rparr>)
         else ms)"

text \<open>The body of the loop of \<^verbatim>\<open>getPchtxtMeta\<close> once a line has been read (lines 546 to 581).\<close>

definition metaLine :: "mstate \<Rightarrow> string \<Rightarrow> metaStep" where
  "metaLine ms rawLine =
     (if trim rawLine = []
      then MetaBreak (metaLogLine (''L'' @ showInt (metaLineNum ms) @ '': done parsing meta'') ms)
      else
        let line = getLineNoComment (trim rawLine);
            lineLower = getStringToLowerCase line
        in if charAt0 line = CHR ''@''
           then (if firstToken lineLower = ''@stop''
                 then MetaBreak (metaLogLine ''done parsing meta (reached tag @stop)'' ms)
                 else MetaNext (metaTag ms (firstToken lineLower) line))
           else if charAt0 line = CHR ''#''
           then MetaNext ((metaLogLine (''L'' @ showInt (metaLineNum ms) @ '': '' @ line) ms)
                            \<lparr>legacyTitle := ltrim (drop 1 line)\<rparr>)
           else MetaNext ms)"

text \<open>
  The loop: the flag returned with the state tells whether the loop ended because \<^verbatim>\<open>std::getline\<close>
  failed, which leaves \<^verbatim>\<open>failbit\<close> set on the stream.
\<close>

fun metaLoop :: "mstate \<Rightarrow> string list \<Rightarrow> mstate \<times> bool" where
  "metaLoop ms [] = (metaLogLine ''meta parsing reached end of file'' ms, True)"
| "metaLoop ms (rawLine # rest) =
     (case metaLine ms rawLine of
        MetaBreak ms' \<Rightarrow> (ms', False)
      | MetaNext ms' \<Rightarrow> metaLoop (ms'\<lparr>metaLineNum := metaLineNum ms' + 1\<rparr>) rest)"

text \<open>Lines 584 to 589.\<close>

definition metaFinish :: "mstate \<Rightarrow> mstate" where
  "metaFinish ms =
     (if title (metaResult ms) = []
      then metaLogLine (''using '' @ [CHR 0x22] @ legacyTitle ms @ [CHR 0x22] @ '' as legacy style title'')
             (ms\<lparr>metaResult := (metaResult ms)\<lparr>title := legacyTitle ms\<rparr>\<rparr>)
      else ms)"

definition metaInit :: mstate where
  "metaInit = \<lparr>metaResult = emptyMeta, legacyTitle = [], metaLineNum = 1, metaLog = []\<rparr>"

text \<open>
  \<^verbatim>\<open>getPchtxtMeta\<close> on the lines of the stream: the metadata, the log, and whether the stream is
  left failed.
\<close>

definition getPchtxtMetaLines :: "string list \<Rightarrow> PatchTextMeta \<times> string list \<times> bool" where
  "getPchtxtMetaLines lines =
     (let (ms, failed) = metaLoop metaInit lines
      in (metaResult (metaFinish ms), metaLog (metaFinish ms), failed))"

definition getPchtxtMeta :: "string \<Rightarrow> PatchTextMeta" where
  "getPchtxtMeta input = fst (getPchtxtMetaLines (getlines input))"

section \<open>The patch body parser\<close>

text \<open>The switch on \<^verbatim>\<open>line[0]\<close> (lines 219 to 508).\<close>

definition parseLine :: "pstate \<Rightarrow> string \<Rightarrow> lineResult" where
  "parseLine st rawLine =
     (let line = trim rawLine;
          lineNoComment = getLineNoComment line;
          lineNoCommentLower = getStringToLowerCase lineNoComment
      in if charAt0 line = CHR ''@'' then tagLine st lineNoComment lineNoCommentLower
         else if charAt0 line = CHR ''#'' then Continue (logLine (lineTag st @ '': '' @ line) st)
         else if charAt0 line = CHR ''['' then cheatHeader st lineNoComment
         else if charAt0 line = CHR ''/''
           then Continue (st\<lparr>lastCommentLine := getLineCommentContent line\<rparr>)
         else contentLine st line lineNoComment lineNoCommentLower)"

text \<open>The loop of \<^verbatim>\<open>parsePchtxt\<close> (lines 212 to 511) over the lines still to be read.\<close>

fun parseLoop :: "pstate \<Rightarrow> string list \<Rightarrow> lineResult" where
  "parseLoop st [] =
     (if stopParsing st then Continue st else Continue (logLine ''done parsing patches'' st))"
| "parseLoop st (rawLine # rest) =
     (if stopParsing st then Continue st
      else (case parseLine st rawLine of
              Continue st' \<Rightarrow> parseLoop (st'\<lparr>curLineNum := curLineNum st' + 1\<rparr>) rest
            | ReturnEmpty lg \<Rightarrow> ReturnEmpty lg
            | Throw e lg \<Rightarrow> Throw e lg))"

text \<open>Lines 513 to 524: the last patch and the last collection.\<close>

definition parseFinish :: "pstate \<Rightarrow> pstate" where
  "parseFinish st =
     (let st1 = (if contents (curPatch st) \<noteq> [] then pushCurPatch st else st)
      in if patches (curPatchCollection st1) \<noteq> []
         then logDebug (lineTag st1 @ '': parsing completed for '' @ buildId (curPatchCollection st1))
                (pushCurCollection st1)
         else st1)"

definition parseInit :: "PatchTextMeta \<Rightarrow> string list \<Rightarrow> pstate" where
  "parseInit m lg =
     \<lparr>result = emptyOutput\<lparr>meta := m\<rparr>, curLineNum = 1, lastCommentLine = [],
      curPatch = emptyPatch, curPatchCollection = emptyPatchCollection, curOffsetShift = 0,
      curIsBigEndian = False, isAcceptingPatch = False, stopParsing = False,
      logDebugInfo = False, logOs = lg\<rparr>"

text \<open>
  \<^verbatim>\<open>parsePchtxt\<close> on a stream at its start. The metadata scan reads the stream first, and
  \<^verbatim>\<open>input.seekg(curPos)\<close> is to bring it back. When the scan stopped at an empty line or at
  \<^verbatim>\<open>@stop\<close> the stream is good and the loop reads every line again, from the first. When the scan
  ended because \<^verbatim>\<open>std::getline\<close> failed, \<^verbatim>\<open>failbit\<close> is set: \<^verbatim>\<open>seekg\<close> clears only \<^verbatim>\<open>eofbit\<close> and
  does nothing on a failed stream, so the first \<^verbatim>\<open>std::getline\<close> of the loop fails and the loop
  reads no line.

  The result is the returned \<^verbatim>\<open>PatchTextOutput\<close> (or the exception that left the function) and
  the log.
\<close>

definition bodyLines :: "string \<Rightarrow> string list" where
  "bodyLines input =
     (if snd (snd (getPchtxtMetaLines (getlines input))) then [] else getlines input)"

definition parsePchtxt :: "string \<Rightarrow> (exn + PatchTextOutput) \<times> string list" where
  "parsePchtxt input =
     (let (m, lg, failed) = getPchtxtMetaLines (getlines input)
      in case parseLoop (parseInit m lg) (bodyLines input) of
           Continue st \<Rightarrow> (Inr (result (parseFinish st)), logOs (parseFinish st))
         | ReturnEmpty lg' \<Rightarrow> (Inr emptyOutput, lg')
         | Throw e lg' \<Rightarrow> (Inl e, lg'))"

section \<open>Specification-side definitions\<close>

text \<open>
  The container format as the specification words it, to compare the writer with: a number as
  \<open>k\<close> bytes, most significant first, and a record as a four-byte offset, a two-byte size and
  the data.
\<close>

fun spec_bigEndian :: "nat \<Rightarrow> nat \<Rightarrow> 8 word list" where
  "spec_bigEndian 0 v = []"
| "spec_bigEndian (Suc k) v = of_nat (v div 256 ^ k) # spec_bigEndian k v"

definition spec_fromBigEndian :: "8 word list \<Rightarrow> nat" where
  "spec_fromBigEndian bytes = foldl (\<lambda>acc b. acc * 256 + unat b) 0 bytes"

definition spec_ipsRecord :: "PatchContent \<Rightarrow> 8 word list" where
  "spec_ipsRecord c =
     spec_bigEndian 4 (unat (offset c)) @ spec_bigEndian 2 (length (value c) mod 65536) @ value c"

definition spec_ipsFile :: "PatchCollection \<Rightarrow> 8 word list" where
  "spec_ipsFile pc =
     asBytes ''IPS32''
     @ concat (map spec_ipsRecord
         (concat (map contents (filter (\<lambda>p. type p = BIN \<and> enabled p) (patches pc)))))
     @ asBytes ''EEOF''"

definition binPatch :: "bool \<Rightarrow> PatchContent list \<Rightarrow> Patch" where
  "binPatch en cs = \<lparr>name = [], author = [], type = BIN, enabled = en, lineNum = 0, contents = cs\<rparr>"

definition exampleCollection :: PatchCollection where
  "exampleCollection =
     \<lparr>buildId = ''ABCDEF'', targetType = NSO,
      patches = [binPatch True [\<lparr>offset = 0x100, value = [0xDE, 0xAD]\<rparr>]]\<rparr>"

definition longValueCollection :: PatchCollection where
  "longValueCollection =
     \<lparr>buildId = ''ABCDEF'', targetType = NSO,
      patches = [binPatch True [\<lparr>offset = 0, value = replicate 65536 0\<rparr>]]\<rparr>"

text \<open>
  Hexadecimal tokens as the specification words them: the pairs of characters of a token from
  left to right, the byte a pair denotes, and the re-encoding of bytes as a lower-case token
  (in the order of the bytes for little endian, in reverse for big endian).
\<close>

fun spec_bytePairs :: "string \<Rightarrow> (char \<times> char) list" where
  "spec_bytePairs (hi # lo # rest) = (hi, lo) # spec_bytePairs rest"
| "spec_bytePairs _ = []"

definition spec_pairValue :: "char \<times> char \<Rightarrow> 8 word" where
  "spec_pairValue p = of_nat (16 * digitValue (fst p) + digitValue (snd p))"

definition spec_encodeByte :: "8 word \<Rightarrow> string" where
  "spec_encodeByte b = [digitChar (unat b div 16), digitChar (unat b mod 16)]"

definition spec_encodeToken :: "bool \<Rightarrow> 8 word list \<Rightarrow> string" where
  "spec_encodeToken bigEndian bytes =
     concat (map spec_encodeByte (if bigEndian then rev bytes else bytes))"

text \<open>
  The state in which the loop of \<^const>\<open>parsePchtxt\<close> is about to read the line after the lines
  \<open>ls\<close>: the loop without what it does when the input ends.
\<close>

fun parsePrefix :: "pstate \<Rightarrow> string list \<Rightarrow> lineResult" where
  "parsePrefix st [] = Continue st"
| "parsePrefix st (rawLine # rest) =
     (if stopParsing st then Continue st
      else (case parseLine st rawLine of
              Continue st' \<Rightarrow> parsePrefix (st'\<lparr>curLineNum := curLineNum st' + 1\<rparr>) rest
            | ReturnEmpty lg \<Rightarrow> ReturnEmpty lg
            | Throw e lg \<Rightarrow> Throw e lg))"

text \<open>
  What the switch computes from a raw line: the line without its comment, and the first token
  of that in lower case (the directive name of a directive line, the offset of a content
  line).
\<close>

definition lineCode :: "string \<Rightarrow> string" where
  "lineCode rawLine = getLineNoComment (trim rawLine)"

definition lineToken :: "string \<Rightarrow> string" where
  "lineToken rawLine = firstToken (getStringToLowerCase (lineCode rawLine))"

definition isTagLine :: "string \<Rightarrow> bool" where
  "isTagLine rawLine = (charAt0 (trim rawLine) = CHR ''@'')"

definition isContentLine :: "string \<Rightarrow> bool" where
  "isContentLine rawLine = (trim rawLine \<noteq> [] \<and> charAt0 (trim rawLine) \<notin> set ''@#[/'')"

text \<open>Examples for the offset shift: a state in which the shift \<open>0x10\<close> is active, and an input.\<close>

definition shiftedState :: pstate where
  "shiftedState = (parseInit emptyMeta [])\<lparr>isAcceptingPatch := True, curOffsetShift := 0x10\<rparr>"

definition shiftExample :: string where
  "shiftExample = concat (map (\<lambda>l. l @ [CHR 0x0A])
     ['''', ''@flag nsobid ABCDEF'', ''@flag offset_shift 0x10'', ''@enabled'', ''00000000 01''])"

text \<open>The kinds of directive line the switch tells apart, as predicates on the raw line.\<close>

definition isPatchStartTag :: "string \<Rightarrow> bool" where
  "isPatchStartTag rawLine =
     (isTagLine rawLine \<and> (lineToken rawLine = ''@enabled'' \<or> lineToken rawLine = ''@disabled''))"

definition isCheatHeader :: "string \<Rightarrow> bool" where
  "isCheatHeader rawLine = (charAt0 (trim rawLine) = CHR ''['')"

definition isLegacyNsobidLine :: "string \<Rightarrow> bool" where
  "isLegacyNsobidLine rawLine =
     (isTagLine rawLine
      \<and> lineToken rawLine \<notin> set [''@stop'', ''@enabled'', ''@disabled'', ''@flag'']
      \<and> isStartsWith (getStringToLowerCase (lineCode rawLine)) ''@nsobid'')"

text \<open>The token after the directive name of a patch-start line.\<close>

definition patchTypeToken :: "string \<Rightarrow> string" where
  "patchTypeToken rawLine =
     firstToken (ltrim (drop (length (lineToken rawLine)) (getStringToLowerCase (lineCode rawLine))))"

text \<open>Example inputs. Each starts with an empty line, which ends the metadata block.\<close>

definition legacyExample :: string where
  "legacyExample = concat (map (\<lambda>l. l @ [CHR 0x0A])
     ['''', ''@flag nsobid A'', ''@enabled'', ''0 01'', ''@nsobid B'', ''0 02''])"

definition flagExample :: string where
  "flagExample = concat (map (\<lambda>l. l @ [CHR 0x0A])
     ['''', ''@flag nsobid A'', ''@enabled'', ''0 01'', ''@flag nsobid B'', ''0 02''])"

definition cheatTypeExample :: string where
  "cheatTypeExample = concat (map (\<lambda>l. l @ [CHR 0x0A])
     ['''', ''@flag nsobid A'', ''[cheat]'', ''@enabled'', ''0 01''])"

definition heapTypeExample :: string where
  "heapTypeExample = concat (map (\<lambda>l. l @ [CHR 0x0A])
     ['''', ''@flag nsobid A'', ''@enabled heap'', ''@enabled'', ''0 01''])"

definition namedState :: pstate where
  "namedState =
     (parseInit emptyMeta [])\<lparr>curPatchCollection := emptyPatchCollection\<lparr>buildId := ''A''\<rparr>\<rparr>"

definition quoteExample :: string where
  "quoteExample = concat (map (\<lambda>l. l @ [CHR 0x0A])
     ['''', ''@flag nsobid A'', ''@enabled'',
      ''0 '' @ [CHR 0x22, CHR ''a'', CHR 0x5C, CHR 0x5C, CHR 0x22]])"

definition missingIdExample :: string where
  "missingIdExample = concat (map (\<lambda>l. l @ [CHR 0x0A])
     ['''', ''# note'', ''@enabled'', ''@flag nsobid A''])"

text \<open>
  The state in which the loop of \<^const>\<open>parsePchtxt\<close> starts on an input, after the metadata scan;
  and the state a pass of the loop goes on with.
\<close>

definition parseStart :: "string \<Rightarrow> pstate" where
  "parseStart input =
     parseInit (fst (getPchtxtMetaLines (getlines input)))
       (fst (snd (getPchtxtMetaLines (getlines input))))"

definition stateOf :: "lineResult \<Rightarrow> pstate" where
  "stateOf r = (case r of Continue st \<Rightarrow> st | _ \<Rightarrow> parseInit emptyMeta [])"

text \<open>
  The metadata block as the specification words it: the lines up to the first empty line or
  \<^verbatim>\<open>@stop\<close>, the \<^verbatim>\<open>@title\<close> lines among them with their values, and the \<^verbatim>\<open>#\<close> lines with the
  legacy title each one proposes.
\<close>

definition metaStops :: "string \<Rightarrow> bool" where
  "metaStops rawLine =
     (trim rawLine = [] \<or> (charAt0 (lineCode rawLine) = CHR ''@'' \<and> lineToken rawLine = ''@stop''))"

definition spec_scannedLines :: "string list \<Rightarrow> string list" where
  "spec_scannedLines ls = takeWhile (\<lambda>l. \<not> metaStops l) ls"

definition isTitleLine :: "string \<Rightarrow> bool" where
  "isTitleLine rawLine = (charAt0 (lineCode rawLine) = CHR ''@'' \<and> lineToken rawLine = ''@title'')"

definition titleValueOf :: "string \<Rightarrow> string" where
  "titleValueOf rawLine = metaTagValue ''@title'' (lineCode rawLine)"

definition isLegacyTitleLine :: "string \<Rightarrow> bool" where
  "isLegacyTitleLine rawLine = (charAt0 (lineCode rawLine) = CHR ''#'')"

definition legacyCandidateOf :: "string \<Rightarrow> string" where
  "legacyCandidateOf rawLine = ltrim (drop 1 (lineCode rawLine))"

definition spec_explicitTitle :: "string list \<Rightarrow> string" where
  "spec_explicitTitle ls =
     (if filter isTitleLine (spec_scannedLines ls) = [] then []
      else titleValueOf (last (filter isTitleLine (spec_scannedLines ls))))"

definition spec_lastLegacyTitle :: "string list \<Rightarrow> string" where
  "spec_lastLegacyTitle ls =
     (if filter isLegacyTitleLine (spec_scannedLines ls) = [] then []
      else legacyCandidateOf (last (filter isLegacyTitleLine (spec_scannedLines ls))))"

definition emptyTitleExample :: string where
  "emptyTitleExample = concat (map (\<lambda>l. l @ [CHR 0x0A])
     [''# Old Name'', ''@title '' @ [CHR 0x22, CHR 0x22], ''# Legacy Name'', ''@program 0100'', '''',
      ''# not scanned''])"

definition bareTitleExample :: string where
  "bareTitleExample = concat (map (\<lambda>l. l @ [CHR 0x0A]) [''# Legacy Name'', ''@title'', ''@stop''])"

text \<open>
  What holds of the parser's state between two lines: the sealed collections have a build id
  and at least one patch, every patch attached to a collection has content, and while the
  current collection has no build id it has no patch, the pending patch has no content and
  content is not accepted.
\<close>

definition goodPatch :: "Patch \<Rightarrow> bool" where
  "goodPatch p = (contents p \<noteq> [])"

definition goodCollection :: "PatchCollection \<Rightarrow> bool" where
  "goodCollection c = (buildId c \<noteq> [] \<and> patches c \<noteq> [] \<and> list_all goodPatch (patches c))"

definition coreInv :: "pstate \<Rightarrow> bool" where
  "coreInv st =
     (list_all goodCollection (collections (result st))
      \<and> list_all goodPatch (patches (curPatchCollection st))
      \<and> (buildId (curPatchCollection st) = []
           \<longrightarrow> patches (curPatchCollection st) = [] \<and> contents (curPatch st) = []))"

definition parseInv :: "pstate \<Rightarrow> bool" where
  "parseInv st = (coreInv st \<and> (buildId (curPatchCollection st) = [] \<longrightarrow> \<not> isAcceptingPatch st))"

definition sealedExample :: string where
  "sealedExample = concat (map (\<lambda>l. l @ [CHR 0x0A])
     ['''', ''@flag nsobid A'', ''@enabled'', ''@disabled'', ''0 01'', ''@flag nsobid B'', ''@enabled'',
      ''@flag nsobid C'', ''@enabled'', ''8 0203''])"






text \<open>No two collections with the same build id, sealed or current.\<close>

definition distInv :: "pstate \<Rightarrow> bool" where
  "distInv st =
     (distinct (map buildId (collections (result st)))
      \<and> buildId (curPatchCollection st) \<notin> set (map buildId (collections (result st))))"






text \<open>
  The collection keyed \<open>X\<close> still starts with the patches \<open>P\<close>: \<^term>\<open>holdsBlock X P c\<close> for a
  collection, and \<^term>\<open>keepsBlock X P st\<close> for a state in which the current collection or a sealed
  one does.
\<close>

definition holdsBlock :: "string \<Rightarrow> Patch list \<Rightarrow> PatchCollection \<Rightarrow> bool" where
  "holdsBlock X P c = (buildId c = X \<and> take (length P) (patches c) = P)"

definition keepsBlock :: "string \<Rightarrow> Patch list \<Rightarrow> pstate \<Rightarrow> bool" where
  "keepsBlock X P st =
     (holdsBlock X P (curPatchCollection st) \<or> list_ex (holdsBlock X P) (collections (result st)))"

section \<open>The writer: properties\<close>

lemma writeOffsetBytes_eq:
  "writeOffsetBytes off shifts os =
     os @ map (\<lambda>rightShift. ucast (drop_bit (rightShift * 8) off AND 0xFF)) shifts"
  by (induction shifts arbitrary: os) (simp_all add: ostreamWrite_def)

lemma writeSizeBytes_eq:
  "writeSizeBytes sz shifts os =
     os @ map (\<lambda>rightShift. of_nat (drop_bit (rightShift * 8) sz AND 0xFF)) shifts"
  by (induction shifts arbitrary: os) (simp_all add: ostreamWrite_def)

lemma mask_byte_word: "(0xFF :: 32 word) = mask 8"
  by (simp add: mask_eq_exp_minus_1)

lemma mask_byte_nat: "(0xFF :: nat) = mask 8"
  by (simp add: mask_eq_exp_minus_1)

lemma offset_byte:
  "(ucast (drop_bit n (off :: 32 word) AND 0xFF) :: 8 word) = of_nat (unat off div 2 ^ n)"
  unfolding mask_byte_word drop_bit_eq_div [symmetric]
  by (rule bit_word_eqI) (auto simp: bit_simps)

lemma size_byte:
  "(of_nat (drop_bit n (sz :: nat) AND 0xFF) :: 8 word) = of_nat (sz div 2 ^ n)"
  unfolding mask_byte_nat drop_bit_eq_div [symmetric]
  by (rule bit_word_eqI) (auto simp: bit_simps)

lemma spec_bigEndian_4:
  "spec_bigEndian 4 v = [of_nat (v div 2 ^ 24), of_nat (v div 2 ^ 16), of_nat (v div 2 ^ 8), of_nat v]"
proof -
  have four: "(4::nat) = Suc (Suc (Suc (Suc 0)))"
    by simp
  have pw: "(256::nat) ^ Suc (Suc (Suc 0)) = 2 ^ 24" "(256::nat) ^ Suc (Suc 0) = 2 ^ 16"
    "(256::nat) ^ Suc 0 = 2 ^ 8" "(256::nat) ^ 0 = 1"
    by simp_all
  show ?thesis
    by (simp only: four spec_bigEndian.simps pw div_by_1)
qed

lemma spec_bigEndian_2: "spec_bigEndian 2 v = [of_nat (v div 2 ^ 8), of_nat v]"
proof -
  have two: "(2::nat) = Suc (Suc 0)"
    by simp
  have pw: "(256::nat) ^ Suc 0 = 2 ^ 8" "(256::nat) ^ 0 = 1"
    by simp_all
  show ?thesis
    by (simp only: two spec_bigEndian.simps pw div_by_1)
qed

lemma offset_bytes_bigEndian:
  "map (\<lambda>rightShift. ucast (drop_bit (rightShift * 8) off AND 0xFF)) [3, 2, 1, 0]
     = spec_bigEndian 4 (unat (off :: 32 word))"
  by (simp only: list.map offset_byte spec_bigEndian_4) simp


lemma size_high_byte_mod: "(of_nat (sz mod 65536 div 2 ^ 8) :: 8 word) = of_nat (sz div 2 ^ 8)"
proof -
  have "sz mod 65536 div 2 ^ 8 = drop_bit 8 (take_bit 16 sz)" "sz div 2 ^ 8 = drop_bit 8 sz"
    by (simp_all add: drop_bit_eq_div take_bit_eq_mod)
  then show ?thesis
    by (simp only:) (rule bit_word_eqI, auto simp: bit_simps)
qed

lemma size_low_byte_mod: "(of_nat (sz mod 65536) :: 8 word) = of_nat sz"
proof -
  have "sz mod 65536 = take_bit 16 sz"
    by (simp add: take_bit_eq_mod)
  then show ?thesis
    by (simp only:) (rule bit_word_eqI, auto simp: bit_simps)
qed

lemma size_bytes_bigEndian:
  "map (\<lambda>rightShift. of_nat (drop_bit (rightShift * 8) sz AND 0xFF)) [1, 0]
     = spec_bigEndian 2 (sz mod 65536)"
  by (simp only: list.map size_byte spec_bigEndian_2 size_high_byte_mod size_low_byte_mod) simp

lemma writeContents_eq:
  "writeContents cs os = os @ concat (map spec_ipsRecord cs)"
proof (induction cs arbitrary: os)
  case Nil
  show ?case by simp
next
  case (Cons c cs)
  have "writeContents (c # cs) os
          = writeContents cs (os @ spec_bigEndian 4 (unat (offset c))
                                @ spec_bigEndian 2 (length (value c) mod 65536) @ value c)"
    by (simp only: writeContents.simps writeOffsetBytes_eq writeSizeBytes_eq ostreamWrite_def
          offset_bytes_bigEndian size_bytes_bigEndian append_assoc)
  then show ?case
    by (simp only: Cons.IH spec_ipsRecord_def list.map concat.simps append_assoc)
qed

lemma writePatches_eq:
  "writePatches ps os =
     os @ concat (map spec_ipsRecord
                    (concat (map contents (filter (\<lambda>p. type p = BIN \<and> enabled p) ps))))"
  by (induction ps arbitrary: os) (auto simp: writeContents_eq)


text \<open>The specification's encoding is big endian: read back, it is the number modulo \<open>256 ^ k\<close>.\<close>

lemma foldl_spec_bigEndian:
  "foldl (\<lambda>acc b. acc * 256 + unat b) a (spec_bigEndian k v) = a * 256 ^ k + v mod 256 ^ k"
proof (induction k arbitrary: a)
  case 0
  show ?case by simp
next
  case (Suc k)
  let ?f = "\<lambda>acc (b :: 8 word). acc * 256 + unat b"
  have split: "v mod (256 ^ k * 256) = 256 ^ k * (v div 256 ^ k mod 256) + v mod 256 ^ k"
    by (rule mod_mult2_eq)
  have "foldl ?f a (spec_bigEndian (Suc k) v)
          = foldl ?f (a * 256 + v div 256 ^ k mod 256) (spec_bigEndian k v)"
    by (simp add: unat_of_nat)
  also have "\<dots> = (a * 256 + v div 256 ^ k mod 256) * 256 ^ k + v mod 256 ^ k"
    by (rule Suc.IH)
  also have "\<dots> = a * 256 ^ Suc k + v mod 256 ^ Suc k"
    using split by (simp add: algebra_simps)
  finally show ?case .
qed

lemma spec_fromBigEndian_bigEndian: "spec_fromBigEndian (spec_bigEndian k v) = v mod 256 ^ k"
  by (simp add: spec_fromBigEndian_def foldl_spec_bigEndian)

lemma writeIps_spec: "writeIps pc os = os @ spec_ipsFile pc"
  by (simp add: writeIps_def ostreamWrite_def writePatches_eq spec_ipsFile_def)

lemma example_bytes:
  "writeIps exampleCollection [] =
     [0x49, 0x50, 0x53, 0x33, 0x32, 0x00, 0x00, 0x01, 0x00, 0x00, 0x02, 0xDE, 0xAD,
      0x45, 0x45, 0x4F, 0x46]"
  by code_simp


lemma long_value_size_field:
  assumes "length v = 65536"
  shows "take 2 (drop 9 (writeIps \<lparr>buildId = b, targetType = t,
            patches = [binPatch True [\<lparr>offset = 0, value = v\<rparr>]]\<rparr> [])) = [0, 0]"
  using assms
  by (simp add: writeIps_spec spec_ipsFile_def binPatch_def spec_ipsRecord_def asBytes_def
        spec_bigEndian_4 spec_bigEndian_2 del: spec_bigEndian.simps)

text \<open>
  Claim C1, as amended. On every patch collection and every output stream, \<^const>\<open>writeIps\<close>
  appends exactly: the five bytes \<^verbatim>\<open>IPS32\<close>; then, for each patch that is of type \<^const>\<open>BIN\<close> and
  enabled, in order, and for each of its content entries, in order, the offset as four bytes
  big endian, the number of value bytes modulo 65536 as two bytes big endian, and the value
  bytes; then the four bytes \<^verbatim>\<open>EEOF\<close>. Patches that are disabled or not of type \<^const>\<open>BIN\<close> add
  nothing. The collection with one enabled binary patch holding the single entry at offset
  \<open>0x100\<close> with value \<open>DE AD\<close> gives the 17 bytes \<^verbatim>\<open>IPS32\<close>, \<open>00 00 01 00\<close>, \<open>00 02\<close>, \<open>DE AD\<close>, \<^verbatim>\<open>EEOF\<close>.
\<close>

theorem C1_writeIps_layout:
  "writeIps pc os =
     os @ asBytes ''IPS32''
        @ concat (map (\<lambda>c. spec_bigEndian 4 (unat (offset c))
                            @ spec_bigEndian 2 (length (value c) mod 65536) @ value c)
            (concat (map contents (filter (\<lambda>p. type p = BIN \<and> enabled p) (patches pc)))))
        @ asBytes ''EEOF''
   \<and> writeIps exampleCollection [] =
         [0x49, 0x50, 0x53, 0x33, 0x32, 0x00, 0x00, 0x01, 0x00, 0x00, 0x02, 0xDE, 0xAD,
          0x45, 0x45, 0x4F, 0x46]
   \<and> length (writeIps exampleCollection []) = 17"
proof -
  have "spec_ipsRecord = (\<lambda>c. spec_bigEndian 4 (unat (offset c))
                            @ spec_bigEndian 2 (length (value c) mod 65536) @ value c)"
    by (rule ext) (simp only: spec_ipsRecord_def)
  then have general: "writeIps pc os =
     os @ asBytes ''IPS32''
        @ concat (map (\<lambda>c. spec_bigEndian 4 (unat (offset c))
                            @ spec_bigEndian 2 (length (value c) mod 65536) @ value c)
            (concat (map contents (filter (\<lambda>p. type p = BIN \<and> enabled p) (patches pc)))))
        @ asBytes ''EEOF''"
    by (simp only: writeIps_spec spec_ipsFile_def)
  have "length (writeIps exampleCollection []) = 17"
    by (simp only: example_bytes) simp
  with general example_bytes show ?thesis
    by blast
qed

text \<open>
  Claim C1 as stated fails twice. The bytes it lists for the example are 17, not 21. And the
  size field is the byte count only up to 65535: for a value of 65536 bytes the record starts
  with the four offset bytes and the size bytes \<open>00 00\<close>.
\<close>

theorem C1_counterexample:
  "length (writeIps exampleCollection []) \<noteq> 21
   \<and> length (value (hd (contents (hd (patches longValueCollection))))) = 65536
   \<and> take 2 (drop 9 (writeIps longValueCollection [])) = [0, 0]"
proof -
  have len: "length (replicate 65536 (0 :: 8 word)) = 65536"
    by (rule length_replicate)
  have "length (value (hd (contents (hd (patches longValueCollection))))) = 65536"
    unfolding longValueCollection_def binPatch_def
    by (simp only: PatchCollection.simps Patch.simps PatchContent.simps list.sel len)
  moreover have "take 2 (drop 9 (writeIps longValueCollection [])) = [0, 0]"
    unfolding longValueCollection_def by (rule long_value_size_field [OF len])
  moreover have "length (writeIps exampleCollection []) \<noteq> 21"
    by (simp only: example_bytes) simp
  ultimately show ?thesis by blast
qed


section \<open>Hexadecimal tokens: properties\<close>

lemma nibble_digit_all:
  "list_all (\<lambda>ch. getHexCharNibble ch = of_nat (digitValue ch) \<and> digitValue ch < 16)
     ''0123456789abcdefABCDEF''"
  by code_simp

lemma nibble_digit:
  "isxdigit ch \<Longrightarrow> getHexCharNibble ch = of_nat (digitValue ch) \<and> digitValue ch < 16"
  using nibble_digit_all unfolding isxdigit_def list_all_iff by blast

lemma digitChar_digitValue_all:
  "list_all (\<lambda>ch. digitChar (digitValue ch) = tolower ch) ''0123456789abcdefABCDEF''"
  by code_simp

lemma digitChar_digitValue: "isxdigit ch \<Longrightarrow> digitChar (digitValue ch) = tolower ch"
  using digitChar_digitValue_all unfolding isxdigit_def list_all_iff by blast

lemma getHexByte_value:
  assumes "isxdigit hi" "isxdigit lo"
  shows "getHexByte hi lo = spec_pairValue (hi, lo)"
  using nibble_digit [OF assms(1)] nibble_digit [OF assms(2)]
  by (simp add: getHexByte_def spec_pairValue_def push_bit_eq_mult)

lemma unat_pairValue:
  assumes "isxdigit hi" "isxdigit lo"
  shows "unat (spec_pairValue (hi, lo)) = 16 * digitValue hi + digitValue lo"
proof -
  have "digitValue hi < 16" "digitValue lo < 16"
    using nibble_digit assms by blast+
  then have "16 * digitValue hi + digitValue lo < 256"
    by arith
  then show ?thesis
    by (simp only: spec_pairValue_def unat_of_nat fst_conv snd_conv) simp
qed

lemma encode_pair:
  assumes "isxdigit hi" "isxdigit lo"
  shows "spec_encodeByte (getHexByte hi lo) = [tolower hi, tolower lo]"
proof -
  have lt: "digitValue lo < 16"
    using nibble_digit assms by blast
  have "unat (getHexByte hi lo) = 16 * digitValue hi + digitValue lo"
    using assms by (simp only: getHexByte_value unat_pairValue)
  with lt show ?thesis
    using assms by (simp add: spec_encodeByte_def digitChar_digitValue)
qed

lemma decodeLittleEndian_pairs:
  "stringIsHex tok \<Longrightarrow> decodeLittleEndian tok = map spec_pairValue (spec_bytePairs tok)"
  by (induction tok rule: decodeLittleEndian.induct)
     (simp_all add: stringIsHex_def getHexByte_value)

lemma decodeLittleEndian_append:
  "even (length xs) \<Longrightarrow> decodeLittleEndian (xs @ ys) = decodeLittleEndian xs @ decodeLittleEndian ys"
  by (induction xs rule: decodeLittleEndian.induct) simp_all

lemma take_two_more:
  assumes "2 \<le> n" "n \<le> length xs"
  shows "take n xs = take (n - 2) xs @ [xs ! (n - 2), xs ! (n - 2 + 1)]"
proof -
  have n: "n = Suc (Suc (n - 2))"
    using assms by arith
  have "take (Suc (Suc (n - 2))) xs = take (n - 2) xs @ [xs ! (n - 2), xs ! (Suc (n - 2))]"
    using assms by (simp add: take_Suc_conv_app_nth)
  with n show ?thesis by simp
qed

lemma decodeBigEndian_rev:
  "even n \<Longrightarrow> n \<le> length tok \<Longrightarrow>
     decodeBigEndian tok n = rev (decodeLittleEndian (take n tok))"
proof (induction tok n rule: decodeBigEndian.induct)
  case (1 tok n)
  show ?case
  proof (cases "n = 0")
    case True
    then show ?thesis by (simp add: decodeBigEndian.simps)
  next
    case False
    with "1.prems" have n2: "2 \<le> n" "even (n - 2)" "n - 2 \<le> length tok"
      by auto
    have ih: "decodeBigEndian tok (n - 2) = rev (decodeLittleEndian (take (n - 2) tok))"
      using "1.IH" [OF False n2(2) n2(3)] .
    have "even (length (take (n - 2) tok))"
      using n2 by simp
    then have "decodeLittleEndian (take n tok)
                 = decodeLittleEndian (take (n - 2) tok) @ [getHexByte (tok ! (n - 2)) (tok ! (n - 2 + 1))]"
      by (simp only: take_two_more [OF n2(1) "1.prems"(2)] decodeLittleEndian_append) simp
    with ih False show ?thesis
      by (simp add: decodeBigEndian.simps [of tok n])
  qed
qed

lemma decodeToken_bigEndian:
  "even (length tok) \<Longrightarrow> decodeToken True tok = rev (decodeToken False tok)"
  by (simp add: decodeToken_def decodeBigEndian_rev)

lemma encode_decodeLittleEndian:
  "even (length tok) \<Longrightarrow> stringIsHex tok \<Longrightarrow>
     concat (map spec_encodeByte (decodeLittleEndian tok)) = getStringToLowerCase tok"
  by (induction tok rule: decodeLittleEndian.induct)
     (simp_all add: stringIsHex_def getStringToLowerCase_def encode_pair)


lemma tolower_not_upper_all:
  "list_all (\<lambda>ch. tolower ch \<notin> set ''ABCDEFGHIJKLMNOPQRSTUVWXYZ'') ''ABCDEFGHIJKLMNOPQRSTUVWXYZ''"
  by code_simp

lemma tolower_idem: "tolower (tolower ch) = tolower ch"
proof (cases "ch \<in> set ''ABCDEFGHIJKLMNOPQRSTUVWXYZ''")
  case True
  with tolower_not_upper_all have "tolower ch \<notin> set ''ABCDEFGHIJKLMNOPQRSTUVWXYZ''"
    unfolding list_all_iff by blast
  then show ?thesis
    by (simp only: tolower_def [of "tolower ch"] if_False)
next
  case False
  then have "tolower ch = ch"
    by (simp only: tolower_def if_False)
  then show ?thesis by simp
qed

lemma lower_token_of_lower_line:
  "getStringToLowerCase (firstToken (drop k (getStringToLowerCase str)))
     = firstToken (drop k (getStringToLowerCase str))"
proof -
  have "tolower x = x" if "x \<in> set (takeWhile P (drop k (map tolower str)))" for x P
  proof -
    from that have "x \<in> set (map tolower str)"
      by (meson in_set_dropD set_takeWhileD)
    then show ?thesis
      by (auto simp: tolower_idem)
  qed
  then have "map tolower (takeWhile P (drop k (map tolower str))) = takeWhile P (drop k (map tolower str))" for P
    by (intro map_idI)
  then show ?thesis
    by (simp only: getStringToLowerCase_def firstToken_def)
qed

text \<open>
  Claim C6, as amended. For every token of even length made of hexadecimal digits, little
  endian gives the bytes of the character pairs from left to right, big endian gives them from
  right to left, and encoding the decoded bytes again under the same endianness gives the token
  in lower case: the token itself when it holds no upper-case letter, which is so for every token
  the parser decodes, since it cuts them from the lower-cased line. The token \<^verbatim>\<open>0A0B\<close> decodes to
  \<open>0A 0B\<close> little endian and to \<open>0B 0A\<close> big endian, and is encoded again as \<^verbatim>\<open>0a0b\<close>.
\<close>

theorem C6_decode_roundtrip:
  assumes "length tok mod 2 = 0" and "stringIsHex tok"
  shows "decodeToken False tok = map spec_pairValue (spec_bytePairs tok)
       \<and> decodeToken True tok = rev (map spec_pairValue (spec_bytePairs tok))
       \<and> spec_encodeToken bigEndian (decodeToken bigEndian tok) = getStringToLowerCase tok
       \<and> (getStringToLowerCase tok = tok
            \<longrightarrow> spec_encodeToken bigEndian (decodeToken bigEndian tok) = tok)"
proof -
  from assms(1) have ev: "even (length tok)"
    by presburger
  have le: "decodeToken False tok = map spec_pairValue (spec_bytePairs tok)"
    using assms(2) by (simp add: decodeToken_def decodeLittleEndian_pairs)
  have be: "decodeToken True tok = rev (decodeToken False tok)"
    using ev by (rule decodeToken_bigEndian)
  have "spec_encodeToken bigEndian (decodeToken bigEndian tok)
          = concat (map spec_encodeByte (decodeLittleEndian tok))"
    by (cases bigEndian) (simp_all add: spec_encodeToken_def be, simp_all add: decodeToken_def)
  with le be show ?thesis
    using encode_decodeLittleEndian [OF ev assms(2)] by simp
qed

theorem C6_decode_roundtrip_witness:
  "length ''0A0B'' mod 2 = 0 \<and> stringIsHex ''0A0B''
   \<and> decodeToken False ''0A0B'' = [0x0A, 0x0B]
   \<and> decodeToken True ''0A0B'' = [0x0B, 0x0A]
   \<and> spec_encodeToken True (decodeToken True ''0A0B'') = ''0a0b''
   \<and> spec_encodeToken False (decodeToken False ''0A0B'') = ''0a0b''
   \<and> length ''0a0b'' mod 2 = 0 \<and> stringIsHex ''0a0b'' \<and> getStringToLowerCase ''0a0b'' = ''0a0b''
   \<and> spec_encodeToken True (decodeToken True ''0a0b'') = ''0a0b''
   \<and> spec_encodeToken False (decodeToken False ''0a0b'') = ''0a0b''"
proof -
  have h1: "length ''0A0B'' mod 2 = 0" and h1': "length ''0a0b'' mod 2 = 0"
    by simp_all
  have h2: "stringIsHex ''0A0B''" and h2': "stringIsHex ''0a0b''"
    by code_simp+
  have pairs: "map spec_pairValue (spec_bytePairs ''0A0B'') = [0x0A, 0x0B]"
    by code_simp
  have low: "getStringToLowerCase ''0A0B'' = ''0a0b''" and low': "getStringToLowerCase ''0a0b'' = ''0a0b''"
    by code_simp+
  note t = C6_decode_roundtrip [OF h1 h2, of True]
  note u = C6_decode_roundtrip [OF h1 h2, of False]
  note t' = C6_decode_roundtrip [OF h1' h2', of True]
  note u' = C6_decode_roundtrip [OF h1' h2', of False]
  have a: "decodeToken False ''0A0B'' = [0x0A, 0x0B]"
    using t [THEN conjunct1] unfolding pairs .
  have b: "decodeToken True ''0A0B'' = [0x0B, 0x0A]"
    using t [THEN conjunct2, THEN conjunct1] unfolding pairs by simp
  have c: "spec_encodeToken True (decodeToken True ''0A0B'') = ''0a0b''"
    using t [THEN conjunct2, THEN conjunct2, THEN conjunct1] unfolding low .
  have d: "spec_encodeToken False (decodeToken False ''0A0B'') = ''0a0b''"
    using u [THEN conjunct2, THEN conjunct2, THEN conjunct1] unfolding low .
  have e: "spec_encodeToken True (decodeToken True ''0a0b'') = ''0a0b''"
    using t' [THEN conjunct2, THEN conjunct2, THEN conjunct2] low' by (rule mp)
  have f: "spec_encodeToken False (decodeToken False ''0a0b'') = ''0a0b''"
    using u' [THEN conjunct2, THEN conjunct2, THEN conjunct2] low' by (rule mp)
  from h1 h2 a b c d h1' h2' low' e f show ?thesis
    by blast
qed

text \<open>
  Claim C6 as stated fails on its own example: the token \<^verbatim>\<open>0A0B\<close> is not what encoding its
  bytes gives, under either endianness. No encoding could give every token back, since
  \<^verbatim>\<open>0A\<close> and \<^verbatim>\<open>0a\<close> decode to the same byte.
\<close>

theorem C6_counterexample:
  "spec_encodeToken False (decodeToken False ''0A0B'') \<noteq> ''0A0B''
   \<and> spec_encodeToken True (decodeToken True ''0A0B'') \<noteq> ''0A0B''
   \<and> decodeToken False ''0A'' = decodeToken False ''0a''
   \<and> decodeToken True ''0A'' = decodeToken True ''0a''
   \<and> ''0A'' \<noteq> ''0a''"
  by code_simp

section \<open>The log does not touch the parsing state\<close>

lemma logLine_fields [simp]:
  "result (logLine msg st) = result st"
  "curLineNum (logLine msg st) = curLineNum st"
  "lastCommentLine (logLine msg st) = lastCommentLine st"
  "curPatch (logLine msg st) = curPatch st"
  "curPatchCollection (logLine msg st) = curPatchCollection st"
  "curOffsetShift (logLine msg st) = curOffsetShift st"
  "curIsBigEndian (logLine msg st) = curIsBigEndian st"
  "isAcceptingPatch (logLine msg st) = isAcceptingPatch st"
  "stopParsing (logLine msg st) = stopParsing st"
  "logDebugInfo (logLine msg st) = logDebugInfo st"
  "logOs (logLine msg st) = logOs st @ [msg]"
  by (simp_all add: logLine_def)

lemma logDebug_fields [simp]:
  "result (logDebug msg st) = result st"
  "curLineNum (logDebug msg st) = curLineNum st"
  "lastCommentLine (logDebug msg st) = lastCommentLine st"
  "curPatch (logDebug msg st) = curPatch st"
  "curPatchCollection (logDebug msg st) = curPatchCollection st"
  "curOffsetShift (logDebug msg st) = curOffsetShift st"
  "curIsBigEndian (logDebug msg st) = curIsBigEndian st"
  "isAcceptingPatch (logDebug msg st) = isAcceptingPatch st"
  "stopParsing (logDebug msg st) = stopParsing st"
  "logDebugInfo (logDebug msg st) = logDebugInfo st"
  by (simp_all add: logDebug_def)

lemma lineTag_log [simp]:
  "lineTag (logLine msg st) = lineTag st" "lineTag (logDebug msg st) = lineTag st"
  by (simp_all add: lineTag_def)

section \<open>The offset shift\<close>

lemma stoi_range: "stoi v = Inr s \<Longrightarrow> - (2 ^ 31) \<le> s \<and> s \<le> 2 ^ 31 - 1"
  unfolding stoi_def Let_def by (simp split: if_splits)

lemma sint_stored_shift:
  "- (2 ^ 31) \<le> s \<Longrightarrow> s \<le> 2 ^ 31 - 1 \<Longrightarrow> sint (word_of_int s :: 32 word) = s"
  by (simp add: sint_sbintrunc' signed_take_bit_int_eq_self)

lemma uint_offset_plus_shift:
  "uint ((of_nat n :: 32 word) + w) = (int n + sint w) mod 2 ^ 32"
proof -
  have "(of_nat n :: 32 word) + w = word_of_int (int n) + word_of_int (sint w)"
    by (simp add: scast_eq [symmetric])
  also have "\<dots> = word_of_int (int n + sint w)"
    by (rule wi_hom_add)
  finally show ?thesis
    by (simp only: uint_word_of_int) simp
qed

lemma digitsValue_leading_zeros:
  "k \<le> length (takeWhile (\<lambda>ch. ch = CHR ''0'') str) \<Longrightarrow>
     foldl (\<lambda>acc ch. acc * b + digitValue ch) 0 (drop k str)
       = foldl (\<lambda>acc ch. acc * b + digitValue ch) 0 str"
proof (induction str arbitrary: k)
  case Nil
  show ?case by simp
next
  case (Cons c str)
  show ?case
  proof (cases k)
    case 0
    then show ?thesis by simp
  next
    case (Suc j)
    with Cons.prems have c: "c = CHR ''0''" and j: "j \<le> length (takeWhile (\<lambda>ch. ch = CHR ''0'') str)"
      by (auto split: if_splits)
    have "digitValue (CHR ''0'') = 0"
      by (simp add: digitValue_def)
    with Cons.IH [OF j] Suc c show ?thesis
      by simp
  qed
qed

lemma stoul16_trimZeros: "stoul16 (trimZeros str) = digitsValue 16 str"
  unfolding stoul16_def trimZeros_def digitsValue_def
  by (rule digitsValue_leading_zeros) simp

lemma parseValue_offset:
  assumes "parseValue st off valueStr = Continue st'"
  shows "\<exists>c. contents (curPatch st') = contents (curPatch st) @ [c] \<and> offset c = off"
  using assms
  by (auto simp: parseValue_def storeContent_def appendContent_def abortParsing_def
           split: if_splits option.splits sum.splits hexError.splits)

lemma contentLine_offset:
  assumes "contentLine st line lnc lower = Continue st'"
    and "isAcceptingPatch st" "line \<noteq> []" "type (curPatch st) \<noteq> AMS"
    and "stringIsHex (firstToken lower)"
  shows "\<exists>c. contents (curPatch st') = contents (curPatch st) @ [c]
             \<and> offset c = of_nat (digitsValue 16 (firstToken lower)) + curOffsetShift st"
proof -
  from assms have "parseValue st (of_nat (stoul16 (trimZeros (firstToken lower))) + curOffsetShift st)
                     (ltrim (drop (length (firstToken lower)) lower)) = Continue st'"
    by (simp add: contentLine_def Let_def abortParsing_def split: if_splits)
  from parseValue_offset [OF this] show ?thesis
    by (simp only: stoul16_trimZeros)
qed

lemma tagFlag_offset_shift:
  assumes "flagTypeOf curTag lnc = ''offset_shift''" and "stoi (flagValueOf curTag lnc) = Inr s"
  shows "tagFlag st curTag lnc
           = Continue (logDebug (lineTag st @ '': offset shift is now '' @ showInt s)
                         (st\<lparr>curOffsetShift := word_of_int s\<rparr>))"
  using assms by (simp add: tagFlag_def)

lemma parseLine_tag:
  "isTagLine rawLine \<Longrightarrow>
     parseLine st rawLine = tagLine st (lineCode rawLine) (getStringToLowerCase (lineCode rawLine))"
  by (simp add: parseLine_def isTagLine_def lineCode_def Let_def)

lemma parseLine_content:
  "isContentLine rawLine \<Longrightarrow>
     parseLine st rawLine
       = contentLine st (trim rawLine) (lineCode rawLine) (getStringToLowerCase (lineCode rawLine))"
  by (simp add: parseLine_def isContentLine_def lineCode_def Let_def)

lemma tagLine_flag:
  "firstToken lower = ''@flag'' \<Longrightarrow> tagLine st lnc lower = tagFlag st ''@flag'' lnc"
  by (simp add: tagLine_def)

text \<open>
  Claim C7. A line \<^verbatim>\<open>@flag offset_shift v\<close> whose value \<^verbatim>\<open>std::stoi\<close> reads as the integer \<open>s\<close>
  (negative or not) makes \<open>s\<close> the active shift. A content line parsed while the shift \<open>s\<close> is
  active stores one more content entry, whose offset, read as an unsigned 32-bit number, is
  the value of the line's hexadecimal offset token plus \<open>s\<close>, modulo \<open>2 ^ 32\<close>.
\<close>

theorem C7_offset_shift:
  "(isTagLine flagLine \<and> lineToken flagLine = ''@flag''
      \<and> flagTypeOf ''@flag'' (lineCode flagLine) = ''offset_shift''
      \<and> stoi (flagValueOf ''@flag'' (lineCode flagLine)) = Inr s
    \<longrightarrow> (case parseLine st0 flagLine of
           Continue st1 \<Rightarrow> sint (curOffsetShift st1) = s
         | _ \<Rightarrow> False))
   \<and> (isAcceptingPatch st \<and> type (curPatch st) \<noteq> AMS
        \<and> isContentLine rawLine \<and> stringIsHex (lineToken rawLine)
      \<longrightarrow> (case parseLine st rawLine of
             Continue st' \<Rightarrow>
               (\<exists>c. contents (curPatch st') = contents (curPatch st) @ [c]
                  \<and> uint (offset c)
                      = (int (digitsValue 16 (lineToken rawLine)) + sint (curOffsetShift st)) mod 2 ^ 32)
           | _ \<Rightarrow> True))"
proof (intro conjI impI)
  assume a: "isTagLine flagLine \<and> lineToken flagLine = ''@flag''
      \<and> flagTypeOf ''@flag'' (lineCode flagLine) = ''offset_shift''
      \<and> stoi (flagValueOf ''@flag'' (lineCode flagLine)) = Inr s"
  then have "parseLine st0 flagLine = tagFlag st0 ''@flag'' (lineCode flagLine)"
    by (simp add: parseLine_tag tagLine_flag lineToken_def)
  also have "\<dots> = Continue (logDebug (lineTag st0 @ '': offset shift is now '' @ showInt s)
                         (st0\<lparr>curOffsetShift := word_of_int s\<rparr>))"
    using a by (simp add: tagFlag_offset_shift)
  finally show "case parseLine st0 flagLine of
           Continue st1 \<Rightarrow> sint (curOffsetShift st1) = s
         | _ \<Rightarrow> False"
    using a stoi_range [of "flagValueOf ''@flag'' (lineCode flagLine)" s]
    by (simp add: sint_stored_shift)
next
  assume a: "isAcceptingPatch st \<and> type (curPatch st) \<noteq> AMS
        \<and> isContentLine rawLine \<and> stringIsHex (lineToken rawLine)"
  show "case parseLine st rawLine of
             Continue st' \<Rightarrow>
               (\<exists>c. contents (curPatch st') = contents (curPatch st) @ [c]
                  \<and> uint (offset c)
                      = (int (digitsValue 16 (lineToken rawLine)) + sint (curOffsetShift st)) mod 2 ^ 32)
           | _ \<Rightarrow> True"
  proof (cases "parseLine st rawLine")
    case (Continue st')
    with a have "contentLine st (trim rawLine) (lineCode rawLine)
                   (getStringToLowerCase (lineCode rawLine)) = Continue st'"
      by (simp add: parseLine_content)
    from contentLine_offset [OF this] a
    obtain c where "contents (curPatch st') = contents (curPatch st) @ [c]"
      and "offset c = of_nat (digitsValue 16 (lineToken rawLine)) + curOffsetShift st"
      by (auto simp: isContentLine_def lineToken_def)
    then show ?thesis
      using Continue by (auto simp: uint_offset_plus_shift)
  qed simp_all
qed

lemma shiftExample_parse:
  "fst (parsePchtxt shiftExample) =
     Inr \<lparr>meta = emptyMeta,
          collections = [\<lparr>buildId = ''ABCDEF'', targetType = NSO,
            patches = [\<lparr>name = [], author = [], type = BIN, enabled = True, lineNum = 4,
              contents = [\<lparr>offset = 0x10, value = [0x01]\<rparr>]\<rparr>]\<rparr>]\<rparr>"
  by code_simp

theorem C7_offset_shift_witness:
  "(isTagLine ''@flag offset_shift 0x10'' \<and> lineToken ''@flag offset_shift 0x10'' = ''@flag''
      \<and> flagTypeOf ''@flag'' (lineCode ''@flag offset_shift 0x10'') = ''offset_shift''
      \<and> stoi (flagValueOf ''@flag'' (lineCode ''@flag offset_shift 0x10'')) = Inr 16)
   \<and> (case parseLine (parseInit emptyMeta []) ''@flag offset_shift 0x10'' of
         Continue st1 \<Rightarrow> sint (curOffsetShift st1) = 16
       | _ \<Rightarrow> False)
   \<and> (isAcceptingPatch shiftedState \<and> type (curPatch shiftedState) \<noteq> AMS
        \<and> isContentLine ''00000000 01'' \<and> stringIsHex (lineToken ''00000000 01''))
   \<and> (case parseLine shiftedState ''00000000 01'' of
         Continue st' \<Rightarrow>
           (\<exists>c. contents (curPatch st') = contents (curPatch shiftedState) @ [c]
              \<and> uint (offset c) = 0x10)
       | _ \<Rightarrow> False)"
proof -
  have h1: "isTagLine ''@flag offset_shift 0x10'' \<and> lineToken ''@flag offset_shift 0x10'' = ''@flag''
      \<and> flagTypeOf ''@flag'' (lineCode ''@flag offset_shift 0x10'') = ''offset_shift''
      \<and> stoi (flagValueOf ''@flag'' (lineCode ''@flag offset_shift 0x10'')) = Inr 16"
    by code_simp
  have h2: "isAcceptingPatch shiftedState \<and> type (curPatch shiftedState) \<noteq> AMS
        \<and> isContentLine ''00000000 01'' \<and> stringIsHex (lineToken ''00000000 01'')"
    by code_simp
  have v: "digitsValue 16 (lineToken ''00000000 01'') = 0" "sint (curOffsetShift shiftedState) = 16"
    by code_simp+
  have run: "case parseLine shiftedState ''00000000 01'' of Continue st' \<Rightarrow> True | _ \<Rightarrow> False"
    by code_simp
  note t = C7_offset_shift [of "''@flag offset_shift 0x10''" 16 "parseInit emptyMeta []"
      shiftedState "''00000000 01''"]
  from t h1 have c1: "case parseLine (parseInit emptyMeta []) ''@flag offset_shift 0x10'' of
         Continue st1 \<Rightarrow> sint (curOffsetShift st1) = 16
       | _ \<Rightarrow> False"
    by blast
  from t h2 have "case parseLine shiftedState ''00000000 01'' of
             Continue st' \<Rightarrow>
               (\<exists>c. contents (curPatch st') = contents (curPatch shiftedState) @ [c]
                  \<and> uint (offset c)
                      = (int (digitsValue 16 (lineToken ''00000000 01'')) + sint (curOffsetShift shiftedState)) mod 2 ^ 32)
           | _ \<Rightarrow> True"
    by blast
  with run have c2: "case parseLine shiftedState ''00000000 01'' of
         Continue st' \<Rightarrow>
           (\<exists>c. contents (curPatch st') = contents (curPatch shiftedState) @ [c]
              \<and> uint (offset c) = 0x10)
       | _ \<Rightarrow> False"
    by (cases "parseLine shiftedState ''00000000 01''") (simp_all add: v)
  from h1 c1 h2 c2 show ?thesis
    by blast
qed


section \<open>Directive lines: properties\<close>

lemma tagLine_patchStart:
  "firstToken lower = ''@enabled'' \<or> firstToken lower = ''@disabled'' \<Longrightarrow>
     tagLine st lnc lower = tagEnabled st (firstToken lower) lower"
  by (auto simp: tagLine_def)

lemma tagLine_legacy:
  "firstToken lower \<notin> set [''@stop'', ''@enabled'', ''@disabled'', ''@flag''] \<Longrightarrow>
   isStartsWith lower ''@nsobid'' \<Longrightarrow>
     tagLine st lnc lower = tagLegacyNsobid st lnc lower"
  by (simp add: tagLine_def)

text \<open>
  Claim C5, as amended. A legacy \<^verbatim>\<open>@nsobid\<close> line only sets the build id of the current collection,
  to what follows the first eight characters of the line without its comment, trimmed on the
  left, and its target type to \<^const>\<open>NSO\<close>. The pending patch, the patches of the current
  collection, the sealed collections and the flag that tells whether content is accepted stay
  as they are. When the line without its comment has no more than eight characters, the
  parse is aborted with an error in the log.
\<close>

theorem C5_legacy_nsobid:
  assumes "isLegacyNsobidLine rawLine"
  shows "case parseLine st rawLine of
           Continue st' \<Rightarrow>
             8 < length (lineCode rawLine)
             \<and> buildId (curPatchCollection st') = ltrim (drop 8 (lineCode rawLine))
             \<and> targetType (curPatchCollection st') = NSO
             \<and> patches (curPatchCollection st') = patches (curPatchCollection st)
             \<and> curPatch st' = curPatch st
             \<and> result st' = result st
             \<and> isAcceptingPatch st' = isAcceptingPatch st
         | ReturnEmpty lg \<Rightarrow>
             length (lineCode rawLine) \<le> 8
             \<and> lg = logOs st @ [lineTag st @ '': ERROR: legacy nsobid tag missing value'']
         | Throw e lg \<Rightarrow> False"
proof -
  from assms have t: "isTagLine rawLine"
    and n: "lineToken rawLine \<notin> set [''@stop'', ''@enabled'', ''@disabled'', ''@flag'']"
    and s: "isStartsWith (getStringToLowerCase (lineCode rawLine)) ''@nsobid''"
    unfolding isLegacyNsobidLine_def by blast+
  have "parseLine st rawLine
      = tagLine st (lineCode rawLine) (getStringToLowerCase (lineCode rawLine))"
    using t by (rule parseLine_tag)
  also have "\<dots> = tagLegacyNsobid st (lineCode rawLine) (getStringToLowerCase (lineCode rawLine))"
    using n s unfolding lineToken_def by (rule tagLine_legacy)
  finally have eq: "parseLine st rawLine
      = tagLegacyNsobid st (lineCode rawLine) (getStringToLowerCase (lineCode rawLine))" .
  have len: "length ''@nsobid'' + 1 = (8::nat)"
    by simp
  show ?thesis
    unfolding eq tagLegacyNsobid_def len
    by (simp add: Let_def abortParsing_def getStringToLowerCase_def)
qed

theorem C5_legacy_nsobid_witness:
  "isLegacyNsobidLine ''@nsobid B''
   \<and> (case parseLine namedState ''@nsobid B'' of
         Continue st' \<Rightarrow>
             8 < length (lineCode ''@nsobid B'')
             \<and> buildId (curPatchCollection st') = ''B''
             \<and> targetType (curPatchCollection st') = NSO
             \<and> patches (curPatchCollection st') = patches (curPatchCollection namedState)
             \<and> curPatch st' = curPatch namedState
             \<and> result st' = result namedState
             \<and> isAcceptingPatch st' = isAcceptingPatch namedState
       | ReturnEmpty lg \<Rightarrow> False
       | Throw e lg \<Rightarrow> False)
   \<and> isLegacyNsobidLine ''@nsobid''
   \<and> (case parseLine namedState ''@nsobid'' of
         Continue st' \<Rightarrow> False
       | ReturnEmpty lg \<Rightarrow> lg = [''L1: ERROR: legacy nsobid tag missing value'']
       | Throw e lg \<Rightarrow> False)"
proof -
  have h1: "isLegacyNsobidLine ''@nsobid B''" and h2: "isLegacyNsobidLine ''@nsobid''"
    by code_simp+
  have v: "ltrim (drop 8 (lineCode ''@nsobid B'')) = ''B''" "\<not> length (lineCode ''@nsobid B'') \<le> 8"
    "\<not> 8 < length (lineCode ''@nsobid'')"
    "logOs namedState @ [lineTag namedState @ '': ERROR: legacy nsobid tag missing value'']
      = [''L1: ERROR: legacy nsobid tag missing value'']"
    by code_simp+
  have a: "case parseLine namedState ''@nsobid B'' of
         Continue st' \<Rightarrow>
             8 < length (lineCode ''@nsobid B'')
             \<and> buildId (curPatchCollection st') = ''B''
             \<and> targetType (curPatchCollection st') = NSO
             \<and> patches (curPatchCollection st') = patches (curPatchCollection namedState)
             \<and> curPatch st' = curPatch namedState
             \<and> result st' = result namedState
             \<and> isAcceptingPatch st' = isAcceptingPatch namedState
       | ReturnEmpty lg \<Rightarrow> False
       | Throw e lg \<Rightarrow> False"
    using C5_legacy_nsobid [OF h1, of namedState] v
    by (cases "parseLine namedState ''@nsobid B''") simp_all
  have b: "case parseLine namedState ''@nsobid'' of
         Continue st' \<Rightarrow> False
       | ReturnEmpty lg \<Rightarrow> lg = [''L1: ERROR: legacy nsobid tag missing value'']
       | Throw e lg \<Rightarrow> False"
    using C5_legacy_nsobid [OF h2, of namedState] v
    by (cases "parseLine namedState ''@nsobid''") simp_all
  from h1 a h2 b show ?thesis
    by blast
qed

text \<open>
  Claim C5 as stated fails. After a patch with content, the legacy line \<^verbatim>\<open>@nsobid B\<close> seals nothing
  and content is still accepted: the one collection of the output is keyed \<open>B\<close> and its patch
  holds the content lines from before and after the legacy line. With \<^verbatim>\<open>@flag nsobid B\<close> in its
  place the patch is sealed in the collection \<open>A\<close> and the content line after it is dropped.
\<close>

theorem C5_counterexample:
  "fst (parsePchtxt legacyExample) =
     Inr \<lparr>meta = emptyMeta,
          collections = [\<lparr>buildId = ''B'', targetType = NSO,
            patches = [\<lparr>name = [], author = [], type = BIN, enabled = True, lineNum = 3,
              contents = [\<lparr>offset = 0, value = [0x01]\<rparr>, \<lparr>offset = 0, value = [0x02]\<rparr>]\<rparr>]\<rparr>]\<rparr>
   \<and> fst (parsePchtxt flagExample) =
     Inr \<lparr>meta = emptyMeta,
          collections = [\<lparr>buildId = ''A'', targetType = NSO,
            patches = [\<lparr>name = [], author = [], type = BIN, enabled = True, lineNum = 3,
              contents = [\<lparr>offset = 0, value = [0x01]\<rparr>]\<rparr>]\<rparr>]\<rparr>"
  by code_simp


text \<open>
  Claim C9, as amended. On a line \<^verbatim>\<open>@enabled\<close> or \<^verbatim>\<open>@disabled\<close>, read while the current collection
  has a build id, the token after the directive name sets the type of the patch being
  started: \<^verbatim>\<open>heap\<close> gives \<^const>\<open>HEAP\<close>, \<^verbatim>\<open>ams\<close> gives \<^const>\<open>AMS\<close>. With any other token, or none, the
  type is \<^const>\<open>BIN\<close> when the pending patch had content (it is sealed and a fresh patch is
  started), and otherwise stays the type of the pending patch, which has no content yet.
\<close>

theorem C9_patch_type:
  assumes "isPatchStartTag rawLine" and "buildId (curPatchCollection st) \<noteq> []"
  shows "case parseLine st rawLine of
           Continue st' \<Rightarrow>
             type (curPatch st') =
               (if patchTypeToken rawLine = ''heap'' then HEAP
                else if patchTypeToken rawLine = ''ams'' then AMS
                else if contents (curPatch st) \<noteq> [] then BIN
                else type (curPatch st))
             \<and> enabled (curPatch st') = (lineToken rawLine = ''@enabled'')
             \<and> isAcceptingPatch st'
         | ReturnEmpty lg \<Rightarrow> False
         | Throw e lg \<Rightarrow> False"
proof -
  from assms(1) have t: "isTagLine rawLine"
    and n: "lineToken rawLine = ''@enabled'' \<or> lineToken rawLine = ''@disabled''"
    unfolding isPatchStartTag_def by blast+
  have "parseLine st rawLine
      = tagLine st (lineCode rawLine) (getStringToLowerCase (lineCode rawLine))"
    using t by (rule parseLine_tag)
  also have "\<dots> = tagEnabled st (lineToken rawLine) (getStringToLowerCase (lineCode rawLine))"
    using n unfolding lineToken_def by (rule tagLine_patchStart)
  finally have eq: "parseLine st rawLine
      = tagEnabled st (lineToken rawLine) (getStringToLowerCase (lineCode rawLine))" .
  show ?thesis
    unfolding eq tagEnabled_def patchTypeToken_def
    using assms(2) by (simp add: Let_def pushCurPatch_def emptyPatch_def)
qed

theorem C9_patch_type_witness:
  "isPatchStartTag ''@enabled heap'' \<and> buildId (curPatchCollection namedState) \<noteq> []
   \<and> patchTypeToken ''@enabled heap'' = ''heap''
   \<and> (case parseLine namedState ''@enabled heap'' of
         Continue st' \<Rightarrow> type (curPatch st') = HEAP \<and> enabled (curPatch st') \<and> isAcceptingPatch st'
       | ReturnEmpty lg \<Rightarrow> False
       | Throw e lg \<Rightarrow> False)"
proof -
  have h1: "isPatchStartTag ''@enabled heap''" and h2: "buildId (curPatchCollection namedState) \<noteq> []"
    by code_simp+
  have v: "patchTypeToken ''@enabled heap'' = ''heap''" "lineToken ''@enabled heap'' = ''@enabled''"
    by code_simp+
  have "case parseLine namedState ''@enabled heap'' of
         Continue st' \<Rightarrow> type (curPatch st') = HEAP \<and> enabled (curPatch st') \<and> isAcceptingPatch st'
       | ReturnEmpty lg \<Rightarrow> False
       | Throw e lg \<Rightarrow> False"
    using C9_patch_type [OF h1 h2] v
    by (cases "parseLine namedState ''@enabled heap''") simp_all
  with h1 h2 v(1) show ?thesis
    by blast
qed

text \<open>
  Claim C9 as stated fails: a directive without a type token does not always start a patch
  of type \<^const>\<open>BIN\<close>. After the cheat header \<^verbatim>\<open>[cheat]\<close> the line \<^verbatim>\<open>@enabled\<close> keeps the type
  \<^const>\<open>AMS\<close> of the pending patch, and the content line is stored as text; after
  \<^verbatim>\<open>@enabled heap\<close> with no content, the line \<^verbatim>\<open>@enabled\<close> keeps the type \<^const>\<open>HEAP\<close>.
\<close>

theorem C9_counterexample:
  "fst (parsePchtxt cheatTypeExample) =
     Inr \<lparr>meta = emptyMeta,
          collections = [\<lparr>buildId = ''A'', targetType = NSO,
            patches = [\<lparr>name = ''cheat'', author = [], type = AMS, enabled = True, lineNum = 4,
              contents = [\<lparr>offset = 0, value = [0x30, 0x20, 0x30, 0x31]\<rparr>]\<rparr>]\<rparr>]\<rparr>
   \<and> fst (parsePchtxt heapTypeExample) =
     Inr \<lparr>meta = emptyMeta,
          collections = [\<lparr>buildId = ''A'', targetType = NSO,
            patches = [\<lparr>name = [], author = [], type = HEAP, enabled = True, lineNum = 4,
              contents = [\<lparr>offset = 0, value = [0x01]\<rparr>]\<rparr>]\<rparr>]\<rparr>"
  by code_simp

section \<open>The closing quote of a string value\<close>

text \<open>
  Claim C8, at the input where the code departs from it. The value \<^verbatim>\<open>"a\\"\<close> ends with a quote
  after two backslashes, an even number: the escape decoder reads the two backslashes as one
  backslash (\<^const>\<open>escapeString\<close> turns \<^verbatim>\<open>a\\\<close> into \<^verbatim>\<open>a\\<close>), so the quote closes the string. The
  search for the closing quote only looks at the one character before the quote, takes it
  for escaped, finds no other quote, and the parse is aborted.
\<close>

theorem C8_even_backslashes_abort:
  "fst (parsePchtxt quoteExample) = Inr emptyOutput
   \<and> last (snd (parsePchtxt quoteExample))
       = ''L4: ERROR: cannot find string closing: '' @ [CHR 0x22, CHR ''a'', CHR 0x5C, CHR 0x5C, CHR 0x22]
   \<and> findStringClosing [CHR 0x22, CHR ''a'', CHR 0x5C, CHR 0x5C, CHR 0x22] 0 = None
   \<and> escapeString [CHR ''a'', CHR 0x5C, CHR 0x5C] = [CHR ''a'', CHR 0x5C]"
  by code_simp


section \<open>The loop: properties\<close>

lemma parseLoop_stopped: "stopParsing st \<Longrightarrow> parseLoop st ls = Continue st"
  by (cases ls) simp_all

lemma parseLoop_prefix:
  "parseLoop st (pre @ rest) =
     (case parsePrefix st pre of
        Continue st' \<Rightarrow> parseLoop st' rest
      | ReturnEmpty lg \<Rightarrow> ReturnEmpty lg
      | Throw e lg \<Rightarrow> Throw e lg)"
proof (induction pre arbitrary: st)
  case Nil
  show ?case by simp
next
  case (Cons l pre)
  show ?case
  proof (cases "stopParsing st")
    case True
    then show ?thesis by (simp add: parseLoop_stopped)
  next
    case False
    then show ?thesis
      by (cases "parseLine st l") (simp_all add: Cons.IH)
  qed
qed

lemma parsePchtxt_loop:
  "parsePchtxt input =
     (case parseLoop (parseStart input) (bodyLines input) of
        Continue st \<Rightarrow> (Inr (result (parseFinish st)), logOs (parseFinish st))
      | ReturnEmpty lg \<Rightarrow> (Inr emptyOutput, lg)
      | Throw e lg \<Rightarrow> (Inl e, lg))"
  by (simp add: parsePchtxt_def parseStart_def split_def Let_def)

lemma parseLine_cheat:
  "isCheatHeader rawLine \<Longrightarrow> parseLine st rawLine = cheatHeader st (lineCode rawLine)"
  by (simp add: parseLine_def isCheatHeader_def lineCode_def Let_def)

lemma patchStart_without_build_id:
  assumes "isPatchStartTag rawLine \<or> isCheatHeader rawLine"
    and "buildId (curPatchCollection st) = []"
  shows "parseLine st rawLine
           = ReturnEmpty (logOs st @ [lineTag st @ '': ERROR: missing build id, abort parsing''])"
  using assms(1)
proof
  assume "isPatchStartTag rawLine"
  then have t: "isTagLine rawLine"
    and n: "lineToken rawLine = ''@enabled'' \<or> lineToken rawLine = ''@disabled''"
    unfolding isPatchStartTag_def by blast+
  have "parseLine st rawLine
      = tagLine st (lineCode rawLine) (getStringToLowerCase (lineCode rawLine))"
    using t by (rule parseLine_tag)
  also have "\<dots> = tagEnabled st (lineToken rawLine) (getStringToLowerCase (lineCode rawLine))"
    using n unfolding lineToken_def by (rule tagLine_patchStart)
  finally show ?thesis
    using assms(2) by (simp add: tagEnabled_def abortParsing_def)
next
  assume "isCheatHeader rawLine"
  then show ?thesis
    using assms(2) by (simp add: parseLine_cheat cheatHeader_def abortParsing_def)
qed

text \<open>
  Claim C3. When the loop reaches a line \<^verbatim>\<open>@enabled\<close> or \<^verbatim>\<open>@disabled\<close>, or a cheat header, while the
  build id of the current collection is empty, \<^const>\<open>parsePchtxt\<close> writes the error to the log and
  returns the empty output: no collections and empty metadata, whatever the lines before had
  built.
\<close>

theorem C3_missing_build_id:
  assumes "bodyLines input = pre @ rawLine # rest"
    and "parsePrefix (parseStart input) pre = Continue st"
    and "\<not> stopParsing st"
    and "buildId (curPatchCollection st) = []"
    and "isPatchStartTag rawLine \<or> isCheatHeader rawLine"
  shows "parsePchtxt input
           = (Inr \<lparr>meta = \<lparr>title = [], programId = [], url = []\<rparr>, collections = []\<rparr>,
              logOs st @ [lineTag st @ '': ERROR: missing build id, abort parsing''])"
proof -
  have "parseLoop st (rawLine # rest)
          = ReturnEmpty (logOs st @ [lineTag st @ '': ERROR: missing build id, abort parsing''])"
    using assms(3) patchStart_without_build_id [OF assms(5) assms(4)] by simp
  then have "parseLoop (parseStart input) (bodyLines input)
          = ReturnEmpty (logOs st @ [lineTag st @ '': ERROR: missing build id, abort parsing''])"
    by (simp only: assms(1) parseLoop_prefix assms(2) lineResult.case)
  then show ?thesis
    by (simp add: parsePchtxt_loop emptyOutput_def emptyMeta_def)
qed

theorem C3_missing_build_id_witness:
  "bodyLines missingIdExample = ['''', ''# note''] @ ''@enabled'' # [''@flag nsobid A'']
   \<and> parsePrefix (parseStart missingIdExample) ['''', ''# note'']
       = Continue (stateOf (parsePrefix (parseStart missingIdExample) ['''', ''# note'']))
   \<and> \<not> stopParsing (stateOf (parsePrefix (parseStart missingIdExample) ['''', ''# note'']))
   \<and> buildId (curPatchCollection (stateOf (parsePrefix (parseStart missingIdExample) ['''', ''# note'']))) = []
   \<and> isPatchStartTag ''@enabled''
   \<and> parsePchtxt missingIdExample
       = (Inr \<lparr>meta = \<lparr>title = [], programId = [], url = []\<rparr>, collections = []\<rparr>,
          [''L1: done parsing meta'',
           ''using '' @ [CHR 0x22, CHR 0x22] @ '' as legacy style title'',
           ''L2: # note'',
           ''L3: ERROR: missing build id, abort parsing''])"
proof -
  let ?st = "stateOf (parsePrefix (parseStart missingIdExample) ['''', ''# note''])"
  have h1: "bodyLines missingIdExample = ['''', ''# note''] @ ''@enabled'' # [''@flag nsobid A'']"
    by code_simp
  have h2: "parsePrefix (parseStart missingIdExample) ['''', ''# note''] = Continue ?st"
    by code_simp
  have h3: "\<not> stopParsing ?st"
    by code_simp
  have h4: "buildId (curPatchCollection ?st) = []"
    by code_simp
  have h5: "isPatchStartTag ''@enabled''"
    by code_simp
  have lg: "logOs ?st @ [lineTag ?st @ '': ERROR: missing build id, abort parsing'']
      = [''L1: done parsing meta'',
         ''using '' @ [CHR 0x22, CHR 0x22] @ '' as legacy style title'',
         ''L2: # note'',
         ''L3: ERROR: missing build id, abort parsing'']"
    by code_simp
  have "parsePchtxt missingIdExample
       = (Inr \<lparr>meta = \<lparr>title = [], programId = [], url = []\<rparr>, collections = []\<rparr>,
          logOs ?st @ [lineTag ?st @ '': ERROR: missing build id, abort parsing''])"
    using h1 h2 h3 h4 h5 by (intro C3_missing_build_id) blast+
  with h1 h2 h3 h4 h5 show ?thesis
    unfolding lg by blast
qed


section \<open>The metadata scanner: properties\<close>

lemma metaLine_stop:
  "metaStops rawLine \<Longrightarrow>
     \<exists>ms'. metaLine ms rawLine = MetaBreak ms' \<and> metaResult ms' = metaResult ms
             \<and> legacyTitle ms' = legacyTitle ms"
  by (auto simp: metaStops_def metaLine_def metaLogLine_def Let_def lineCode_def lineToken_def)

lemma metaTag_title:
  "title (metaResult (metaTag ms curTag line))
     = (if curTag = ''@title'' then metaTagValue ''@title'' line else title (metaResult ms))"
  by (simp add: metaTag_def Let_def metaLogLine_def)

lemma metaTag_legacy: "legacyTitle (metaTag ms curTag line) = legacyTitle ms"
  by (simp add: metaTag_def Let_def metaLogLine_def)

lemma metaLine_next:
  "\<not> metaStops rawLine \<Longrightarrow>
     \<exists>ms'. metaLine ms rawLine = MetaNext ms'
       \<and> title (metaResult ms')
           = (if isTitleLine rawLine then titleValueOf rawLine else title (metaResult ms))
       \<and> legacyTitle ms'
           = (if isLegacyTitleLine rawLine then legacyCandidateOf rawLine else legacyTitle ms)"
  by (auto simp: metaStops_def metaLine_def metaLogLine_def Let_def lineCode_def lineToken_def
        isTitleLine_def titleValueOf_def isLegacyTitleLine_def legacyCandidateOf_def
        metaTag_title metaTag_legacy)

lemma last_filter_Cons:
  "(if filter P (x # xs) = [] then d else f (last (filter P (x # xs))))
     = (if filter P xs = [] then (if P x then f x else d) else f (last (filter P xs)))"
  by simp

lemma metaLoop_titles:
  "title (metaResult (fst (metaLoop ms ls)))
     = (if filter isTitleLine (spec_scannedLines ls) = [] then title (metaResult ms)
        else titleValueOf (last (filter isTitleLine (spec_scannedLines ls))))
   \<and> legacyTitle (fst (metaLoop ms ls))
     = (if filter isLegacyTitleLine (spec_scannedLines ls) = [] then legacyTitle ms
        else legacyCandidateOf (last (filter isLegacyTitleLine (spec_scannedLines ls))))"
proof (induction ls arbitrary: ms)
  case Nil
  show ?case
    by (simp add: spec_scannedLines_def metaLogLine_def)
next
  case (Cons l ls)
  show ?case
  proof (cases "metaStops l")
    case True
    from metaLine_stop [OF True, of ms] obtain ms' where "metaLine ms l = MetaBreak ms'"
      "metaResult ms' = metaResult ms" "legacyTitle ms' = legacyTitle ms"
      by blast
    with True show ?thesis
      by (simp add: spec_scannedLines_def)
  next
    case False
    from metaLine_next [OF False, of ms] obtain ms' where m: "metaLine ms l = MetaNext ms'"
      and t: "title (metaResult ms')
           = (if isTitleLine l then titleValueOf l else title (metaResult ms))"
      and g: "legacyTitle ms'
           = (if isLegacyTitleLine l then legacyCandidateOf l else legacyTitle ms)"
      by blast
    have sc: "spec_scannedLines (l # ls) = l # spec_scannedLines ls"
      using False by (simp add: spec_scannedLines_def)
    have lp: "metaLoop ms (l # ls) = metaLoop (ms'\<lparr>metaLineNum := metaLineNum ms' + 1\<rparr>) ls"
      using m by simp
    show ?thesis
      unfolding lp sc last_filter_Cons
      using Cons.IH [of "ms'\<lparr>metaLineNum := metaLineNum ms' + 1\<rparr>"] t g
      by simp
  qed
qed

lemma getPchtxtMeta_title:
  "title (getPchtxtMeta input) =
     (if spec_explicitTitle (getlines input) = [] then spec_lastLegacyTitle (getlines input)
      else spec_explicitTitle (getlines input))"
proof -
  let ?ms = "fst (metaLoop metaInit (getlines input))"
  have "title (getPchtxtMeta input) = title (metaResult (metaFinish ?ms))"
    by (simp add: getPchtxtMeta_def getPchtxtMetaLines_def split_def Let_def)
  also have "\<dots> = (if title (metaResult ?ms) = [] then legacyTitle ?ms else title (metaResult ?ms))"
    by (simp add: metaFinish_def metaLogLine_def)
  also have "title (metaResult ?ms) = spec_explicitTitle (getlines input)"
    using metaLoop_titles [of metaInit "getlines input"]
    by (simp add: spec_explicitTitle_def metaInit_def emptyMeta_def)
  also have "legacyTitle ?ms = spec_lastLegacyTitle (getlines input)"
    using metaLoop_titles [of metaInit "getlines input"]
    by (simp add: spec_lastLegacyTitle_def metaInit_def)
  finally show ?thesis .
qed

text \<open>
  Claim C10. The title that \<^const>\<open>getPchtxtMeta\<close> returns is the value of the last \<^verbatim>\<open>@title\<close> line of
  the metadata block when that value is not empty, and otherwise the candidate of the last
  \<^verbatim>\<open>#\<close> line of the block. So when the last \<^verbatim>\<open>@title\<close> line sets an empty title (\<^verbatim>\<open>@title ""\<close>, or
  \<^verbatim>\<open>@title\<close> alone), the title is the last legacy candidate, just as when there is no \<^verbatim>\<open>@title\<close>
  line at all.
\<close>

theorem C10_empty_title_falls_back:
  assumes "filter isTitleLine (spec_scannedLines (getlines input)) \<noteq> []"
    and "titleValueOf (last (filter isTitleLine (spec_scannedLines (getlines input)))) = []"
  shows "title (getPchtxtMeta input) = spec_lastLegacyTitle (getlines input)"
  using assms by (simp add: getPchtxtMeta_title spec_explicitTitle_def)

theorem C10_empty_title_falls_back_witness:
  "filter isTitleLine (spec_scannedLines (getlines emptyTitleExample)) \<noteq> []
   \<and> titleValueOf (last (filter isTitleLine (spec_scannedLines (getlines emptyTitleExample)))) = []
   \<and> title (getPchtxtMeta emptyTitleExample) = ''Legacy Name''
   \<and> filter isTitleLine (spec_scannedLines (getlines bareTitleExample)) \<noteq> []
   \<and> titleValueOf (last (filter isTitleLine (spec_scannedLines (getlines bareTitleExample)))) = []
   \<and> title (getPchtxtMeta bareTitleExample) = ''Legacy Name''"
proof -
  have h1: "filter isTitleLine (spec_scannedLines (getlines emptyTitleExample)) \<noteq> []"
    and h2: "titleValueOf (last (filter isTitleLine (spec_scannedLines (getlines emptyTitleExample)))) = []"
    and h3: "filter isTitleLine (spec_scannedLines (getlines bareTitleExample)) \<noteq> []"
    and h4: "titleValueOf (last (filter isTitleLine (spec_scannedLines (getlines bareTitleExample)))) = []"
    by code_simp+
  have v: "spec_lastLegacyTitle (getlines emptyTitleExample) = ''Legacy Name''"
    "spec_lastLegacyTitle (getlines bareTitleExample) = ''Legacy Name''"
    by code_simp+
  have a: "title (getPchtxtMeta emptyTitleExample) = ''Legacy Name''"
    using C10_empty_title_falls_back [OF h1 h2] unfolding v .
  have b: "title (getPchtxtMeta bareTitleExample) = ''Legacy Name''"
    using C10_empty_title_falls_back [OF h3 h4] unfolding v .
  from h1 h2 a h3 h4 b show ?thesis
    by blast
qed


section \<open>Sealed patches and collections\<close>

lemma coreInv_log [simp]:
  "coreInv (logLine msg st) = coreInv st" "coreInv (logDebug msg st) = coreInv st"
  by (simp_all add: coreInv_def)

lemma parseInv_log [simp]:
  "parseInv (logLine msg st) = parseInv st" "parseInv (logDebug msg st) = parseInv st"
  by (simp_all add: parseInv_def)

lemma coreInv_pushCurPatch:
  "coreInv st \<Longrightarrow> contents (curPatch st) \<noteq> [] \<Longrightarrow> coreInv (pushCurPatch st)"
  by (auto simp: coreInv_def pushCurPatch_def goodPatch_def)

lemma pushCurPatch_fields [simp]:
  "curPatch (pushCurPatch st) = curPatch st"
  "result (pushCurPatch st) = result st"
  "isAcceptingPatch (pushCurPatch st) = isAcceptingPatch st"
  "buildId (curPatchCollection (pushCurPatch st)) = buildId (curPatchCollection st)"
  "lastCommentLine (pushCurPatch st) = lastCommentLine st"
  "curLineNum (pushCurPatch st) = curLineNum st"
  by (simp_all add: pushCurPatch_def)

lemma list_all_eraseFirst: "list_all Q xs \<Longrightarrow> list_all Q (eraseFirst P xs)"
  by (induction xs) auto

lemma find_Some_in: "find P xs = Some x \<Longrightarrow> x \<in> set xs \<and> P x"
  by (induction xs) (auto split: if_splits)

lemma coreInv_flagBuildId: "coreInv st \<Longrightarrow> coreInv (flagBuildId st flagType flagValue)"
proof -
  assume inv: "coreInv st"
  define st1 where "st1 = (if contents (curPatch st) \<noteq> [] then pushCurPatch st else st)"
  define st2 where "st2 = st1\<lparr>curPatch := emptyPatch\<rparr>"
  define st3 where "st3 = (if patches (curPatchCollection st2) \<noteq> []
                 then (logDebug (lineTag st2 @ '': parsing stopped for '' @ buildId (curPatchCollection st2))
                         (pushCurCollection st2))\<lparr>curPatchCollection := emptyPatchCollection\<rparr>
                 else st2)"
  define st4 where "st4 = (case find (\<lambda>collection. buildId collection = flagValue) (collections (result st3)) of
                   Some existingCollection \<Rightarrow>
                     st3\<lparr>curPatchCollection := existingCollection,
                         result := (result st3)\<lparr>collections :=
                           eraseFirst (\<lambda>collection. buildId collection = flagValue)
                             (collections (result st3))\<rparr>\<rparr>
                 | None \<Rightarrow>
                     st3\<lparr>curPatchCollection :=
                           (curPatchCollection st3)\<lparr>buildId := flagValue,
                             targetType := (if flagType = ''nrobid'' then NRO else NSO)\<rparr>\<rparr>)"
  have i1: "coreInv st1"
    using inv by (simp add: st1_def coreInv_pushCurPatch)
  have i2: "coreInv st2" and e2: "contents (curPatch st2) = []"
    using i1 by (simp_all add: st2_def coreInv_def emptyPatch_def)
  have i3: "coreInv st3" and e3: "contents (curPatch st3) = []" and p3: "patches (curPatchCollection st3) = []"
    using i2 e2
    by (auto simp: st3_def coreInv_def pushCurCollection_def emptyPatchCollection_def
          goodCollection_def)
  have i4: "coreInv st4"
  proof (cases "find (\<lambda>collection. buildId collection = flagValue) (collections (result st3))")
    case None
    then show ?thesis
      using i3 e3 p3 by (simp add: st4_def coreInv_def)
  next
    case (Some c)
    from find_Some_in [OF Some] i3 have "goodCollection c"
      by (auto simp: coreInv_def list_all_iff)
    with Some i3 show ?thesis
      by (simp add: st4_def coreInv_def list_all_eraseFirst goodCollection_def)
  qed
  have "flagBuildId st flagType flagValue
          = logDebug (lineTag (st4\<lparr>isAcceptingPatch := False\<rparr>) @ '': parsing started for ''
                        @ buildId (curPatchCollection (st4\<lparr>isAcceptingPatch := False\<rparr>)))
              (st4\<lparr>isAcceptingPatch := False\<rparr>)"
    by (simp only: flagBuildId_def Let_def st1_def st2_def st3_def st4_def)
  with i4 show ?thesis
    by (simp add: coreInv_def)
qed

lemma flagBuildId_not_accepting: "\<not> isAcceptingPatch (flagBuildId st flagType flagValue)"
  by (simp add: flagBuildId_def Let_def)

lemma parseInv_tagFlag:
  "parseInv st \<Longrightarrow> tagFlag st curTag lnc = Continue st' \<Longrightarrow> parseInv st'"
  by (auto simp: tagFlag_def Let_def parseInv_def coreInv_flagBuildId flagBuildId_not_accepting
        split: if_splits sum.splits)
     (simp_all add: coreInv_def)

lemma parseInv_tagEnabled:
  "parseInv st \<Longrightarrow> tagEnabled st curTag lower = Continue st' \<Longrightarrow> parseInv st'"
  by (auto simp: tagEnabled_def Let_def parseInv_def coreInv_def abortParsing_def pushCurPatch_def
        emptyPatch_def goodPatch_def split: if_splits)

lemma parseInv_cheatHeader:
  "parseInv st \<Longrightarrow> cheatHeader st lnc = Continue st' \<Longrightarrow> parseInv st'"
  by (auto simp: cheatHeader_def Let_def parseInv_def coreInv_def abortParsing_def pushCurPatch_def
        goodPatch_def split: if_splits)

lemma rtrim_last: "rtrim str \<noteq> [] \<Longrightarrow> \<not> isspace (last (rtrim str))"
proof -
  assume "rtrim str \<noteq> []"
  then obtain y ys where d: "dropWhile isspace (rev str) = y # ys"
    by (cases "dropWhile isspace (rev str)") (simp_all add: rtrim_def)
  then have "\<not> isspace y"
    using hd_dropWhile [of isspace "rev str"] by simp
  with d show ?thesis
    by (simp add: rtrim_def)
qed

lemma legacy_build_id_nonempty:
  assumes "8 < length (lineCode rawLine)"
  shows "ltrim (drop 8 (lineCode rawLine)) \<noteq> []"
proof -
  from assms have ne: "rtrim (take (commentPos (trim rawLine)) (trim rawLine)) \<noteq> []"
    by (auto simp: lineCode_def getLineNoComment_def)
  from rtrim_last [OF ne] have sp: "\<not> isspace (last (lineCode rawLine))"
    by (simp add: lineCode_def getLineNoComment_def)
  from assms have "drop 8 (lineCode rawLine) \<noteq> []"
    by simp
  moreover from this have "last (drop 8 (lineCode rawLine)) = last (lineCode rawLine)"
    using assms by (simp add: last_drop)
  ultimately have "\<exists>x \<in> set (drop 8 (lineCode rawLine)). \<not> isspace x"
    using sp by (metis last_in_set)
  then show ?thesis
    by (simp add: ltrim_def dropWhile_eq_Nil_conv)
qed

lemma parseInv_legacy:
  assumes "parseInv st"
    and "tagLegacyNsobid st (lineCode rawLine) (getStringToLowerCase (lineCode rawLine)) = Continue st'"
  shows "parseInv st'"
proof -
  have len: "length ''@nsobid'' + 1 = (8::nat)"
    by simp
  from assms(2) have l: "8 < length (lineCode rawLine)"
    and s: "st' = logDebug (lineTag st @ '': parsing started for '' @ ltrim (drop 8 (lineCode rawLine))
                              @ '' (legacy style bid)'')
                    (st\<lparr>curPatchCollection := (curPatchCollection st)\<lparr>targetType := NSO,
                          buildId := ltrim (drop 8 (lineCode rawLine))\<rparr>\<rparr>)"
    unfolding tagLegacyNsobid_def len
    by (auto simp: Let_def abortParsing_def getStringToLowerCase_def lineTag_def split: if_splits)
  from assms(1) legacy_build_id_nonempty [OF l] show ?thesis
    unfolding s by (simp add: parseInv_def coreInv_def)
qed

lemma parseInv_tagLine:
  assumes "parseInv st"
    and "tagLine st (lineCode rawLine) (getStringToLowerCase (lineCode rawLine)) = Continue st'"
  shows "parseInv st'"
proof -
  let ?lower = "getStringToLowerCase (lineCode rawLine)"
  consider (stop) "firstToken ?lower = ''@stop''"
    | (start) "firstToken ?lower \<noteq> ''@stop''"
        "firstToken ?lower = ''@enabled'' \<or> firstToken ?lower = ''@disabled''"
    | (flag) "firstToken ?lower \<noteq> ''@stop''"
        "\<not> (firstToken ?lower = ''@enabled'' \<or> firstToken ?lower = ''@disabled'')"
        "firstToken ?lower = ''@flag''"
    | (legacy) "firstToken ?lower \<noteq> ''@stop''"
        "\<not> (firstToken ?lower = ''@enabled'' \<or> firstToken ?lower = ''@disabled'')"
        "firstToken ?lower \<noteq> ''@flag''" "isStartsWith ?lower ''@nsobid''"
    | (other) "firstToken ?lower \<noteq> ''@stop''"
        "\<not> (firstToken ?lower = ''@enabled'' \<or> firstToken ?lower = ''@disabled'')"
        "firstToken ?lower \<noteq> ''@flag''" "\<not> isStartsWith ?lower ''@nsobid''"
    by blast
  then show ?thesis
  proof cases
    case stop
    with assms show ?thesis
      by (auto simp: tagLine_def parseInv_def coreInv_def)
  next
    case start
    with assms(2) have "tagEnabled st (firstToken ?lower) ?lower = Continue st'"
      by (simp add: tagLine_def)
    with assms(1) show ?thesis
      by (rule parseInv_tagEnabled)
  next
    case flag
    with assms(2) have "tagFlag st (firstToken ?lower) (lineCode rawLine) = Continue st'"
      by (simp add: tagLine_def)
    with assms(1) show ?thesis
      by (rule parseInv_tagFlag)
  next
    case legacy
    with assms(2) have "tagLegacyNsobid st (lineCode rawLine) ?lower = Continue st'"
      by (simp add: tagLine_def)
    with assms(1) show ?thesis
      by (rule parseInv_legacy)
  next
    case other
    with assms show ?thesis
      by (auto simp: tagLine_def Let_def split: if_splits)
  qed
qed

lemma parseInv_appendContent:
  "parseInv st \<Longrightarrow> isAcceptingPatch st \<Longrightarrow> parseInv (appendContent c st)"
  by (auto simp: parseInv_def coreInv_def appendContent_def)

lemma parseInv_contentLine:
  assumes "parseInv st" and "contentLine st line lnc lower = Continue st'"
  shows "parseInv st'"
proof (cases "isAcceptingPatch st \<and> line \<noteq> []")
  case False
  with assms show ?thesis
    by (auto simp: contentLine_def split: if_splits)
next
  case True
  then have acc: "isAcceptingPatch st" and ne: "line \<noteq> []"
    by blast+
  show ?thesis
  proof (cases "type (curPatch st) = AMS")
    case True
    with assms acc ne show ?thesis
      by (auto simp: contentLine_def parseInv_appendContent)
  next
    case False
    with assms(2) acc ne consider "st' = logDebug (lineTag st @ '': line ignored: invalid offset: '' @ line) st"
      | off v where "parseValue st off v = Continue st'"
      by (auto simp: contentLine_def Let_def abortParsing_def split: if_splits)
    then show ?thesis
    proof cases
      case 1
      with assms(1) show ?thesis by simp
    next
      case 2
      then obtain c where "st' = storeContent c st"
        by (auto simp: parseValue_def abortParsing_def
              split: if_splits option.splits sum.splits hexError.splits)
      with assms(1) acc show ?thesis
        by (simp add: storeContent_def parseInv_appendContent)
    qed
  qed
qed

lemma parseInv_parseLine:
  assumes "parseInv st" and "parseLine st rawLine = Continue st'"
  shows "parseInv st'"
proof -
  let ?line = "trim rawLine"
  consider (tag) "charAt0 ?line = CHR ''@''"
    | (echo) "charAt0 ?line \<noteq> CHR ''@''" "charAt0 ?line = CHR ''#''"
    | (cheat) "charAt0 ?line \<noteq> CHR ''@''" "charAt0 ?line \<noteq> CHR ''#''" "charAt0 ?line = CHR ''[''"
    | (comment) "charAt0 ?line \<noteq> CHR ''@''" "charAt0 ?line \<noteq> CHR ''#''"
        "charAt0 ?line \<noteq> CHR ''[''" "charAt0 ?line = CHR ''/''"
    | (content) "charAt0 ?line \<noteq> CHR ''@''" "charAt0 ?line \<noteq> CHR ''#''"
        "charAt0 ?line \<noteq> CHR ''[''" "charAt0 ?line \<noteq> CHR ''/''"
    by blast
  then show ?thesis
  proof cases
    case tag
    with assms(2) have "tagLine st (lineCode rawLine) (getStringToLowerCase (lineCode rawLine)) = Continue st'"
      by (simp add: parseLine_def Let_def lineCode_def)
    with assms(1) show ?thesis
      by (rule parseInv_tagLine)
  next
    case echo
    with assms show ?thesis
      by (auto simp: parseLine_def Let_def)
  next
    case cheat
    with assms(2) have "cheatHeader st (lineCode rawLine) = Continue st'"
      by (simp add: parseLine_def Let_def lineCode_def)
    with assms(1) show ?thesis
      by (rule parseInv_cheatHeader)
  next
    case comment
    with assms show ?thesis
      by (auto simp: parseLine_def Let_def parseInv_def coreInv_def)
  next
    case content
    with assms(2) have "contentLine st ?line (lineCode rawLine) (getStringToLowerCase (lineCode rawLine)) = Continue st'"
      by (simp add: parseLine_def Let_def lineCode_def)
    with assms(1) show ?thesis
      by (rule parseInv_contentLine)
  qed
qed

lemma parseInv_lineNum [simp]: "parseInv (st\<lparr>curLineNum := n\<rparr>) = parseInv st"
  by (simp add: parseInv_def coreInv_def)

lemma parseInv_parseLoop:
  "parseInv st \<Longrightarrow> parseLoop st ls = Continue st' \<Longrightarrow> parseInv st'"
proof (induction ls arbitrary: st)
  case Nil
  then show ?case
    by (auto split: if_splits)
next
  case (Cons l ls)
  show ?case
  proof (cases "stopParsing st")
    case True
    with Cons.prems show ?thesis by simp
  next
    case False
    with Cons.prems(2) obtain st1 where s: "parseLine st l = Continue st1"
      and r: "parseLoop (st1\<lparr>curLineNum := curLineNum st1 + 1\<rparr>) ls = Continue st'"
      by (cases "parseLine st l") simp_all
    from parseInv_parseLine [OF Cons.prems(1) s] have "parseInv (st1\<lparr>curLineNum := curLineNum st1 + 1\<rparr>)"
      by simp
    from Cons.IH [OF this r] show ?thesis .
  qed
qed

lemma parseInv_init: "parseInv (parseInit m lg)"
  by (simp add: parseInv_def coreInv_def parseInit_def emptyOutput_def emptyPatch_def
        emptyPatchCollection_def)

lemma parseFinish_sealed:
  "parseInv st \<Longrightarrow> list_all goodCollection (collections (result (parseFinish st)))"
  by (auto simp: parseFinish_def Let_def parseInv_def coreInv_def pushCurPatch_def
        pushCurCollection_def goodCollection_def goodPatch_def)

text \<open>
  Claim C2. Whatever the input, in the output that \<^const>\<open>parsePchtxt\<close> returns every collection has
  a build id that is not empty and at least one patch, and every patch has at least one
  content entry.
\<close>

theorem C2_sealed_nonempty:
  assumes "fst (parsePchtxt input) = Inr out"
  shows "\<forall>c \<in> set (collections out).
           buildId c \<noteq> [] \<and> patches c \<noteq> [] \<and> (\<forall>p \<in> set (patches c). contents p \<noteq> [])"
proof -
  have "list_all goodCollection (collections out)"
  proof (cases "parseLoop (parseStart input) (bodyLines input)")
    case (Continue st)
    have "parseInv st"
      using parseInv_init Continue unfolding parseStart_def by (rule parseInv_parseLoop)
    from parseFinish_sealed [OF this] assms Continue show ?thesis
      by (simp add: parsePchtxt_loop)
  next
    case (ReturnEmpty lg)
    with assms show ?thesis
      by (auto simp: parsePchtxt_loop emptyOutput_def)
  next
    case (Throw e lg)
    with assms show ?thesis
      by (simp add: parsePchtxt_loop)
  qed
  then show ?thesis
    by (simp add: list_all_iff goodCollection_def goodPatch_def)
qed

lemma sealedExample_parse:
  "fst (parsePchtxt sealedExample) =
     Inr \<lparr>meta = emptyMeta,
          collections =
            [\<lparr>buildId = ''A'', targetType = NSO,
              patches = [\<lparr>name = [], author = [], type = BIN, enabled = False, lineNum = 4,
                contents = [\<lparr>offset = 0, value = [0x01]\<rparr>]\<rparr>]\<rparr>,
             \<lparr>buildId = ''C'', targetType = NSO,
              patches = [\<lparr>name = [], author = [], type = BIN, enabled = True, lineNum = 9,
                contents = [\<lparr>offset = 8, value = [0x02, 0x03]\<rparr>]\<rparr>]\<rparr>]\<rparr>"
  by code_simp

theorem C2_sealed_nonempty_witness:
  "fst (parsePchtxt sealedExample) =
     Inr \<lparr>meta = emptyMeta,
          collections =
            [\<lparr>buildId = ''A'', targetType = NSO,
              patches = [\<lparr>name = [], author = [], type = BIN, enabled = False, lineNum = 4,
                contents = [\<lparr>offset = 0, value = [0x01]\<rparr>]\<rparr>]\<rparr>,
             \<lparr>buildId = ''C'', targetType = NSO,
              patches = [\<lparr>name = [], author = [], type = BIN, enabled = True, lineNum = 9,
                contents = [\<lparr>offset = 8, value = [0x02, 0x03]\<rparr>]\<rparr>]\<rparr>]\<rparr>
   \<and> list_all (\<lambda>c. buildId c \<noteq> [] \<and> patches c \<noteq> [] \<and> list_all (\<lambda>p. contents p \<noteq> []) (patches c))
         [\<lparr>buildId = ''A'', targetType = NSO,
              patches = [\<lparr>name = [], author = [], type = BIN, enabled = False, lineNum = 4,
                contents = [\<lparr>offset = 0, value = [0x01]\<rparr>]\<rparr>]\<rparr>,
             \<lparr>buildId = ''C'', targetType = NSO,
              patches = [\<lparr>name = [], author = [], type = BIN, enabled = True, lineNum = 9,
                contents = [\<lparr>offset = 8, value = [0x02 :: 8 word, 0x03]\<rparr>]\<rparr>]\<rparr>]"
  using C2_sealed_nonempty [OF sealedExample_parse] sealedExample_parse
  by (simp add: list_all_iff)


section \<open>Build-id blocks\<close>









lemma distInv_log [simp]:
  "distInv (logLine msg st) = distInv st" "distInv (logDebug msg st) = distInv st"
  "distInv (st\<lparr>curLineNum := n\<rparr>) = distInv st"
  by (simp_all add: distInv_def)










lemma keepsBlock_log [simp]:
  "keepsBlock X P (logLine msg st) = keepsBlock X P st"
  "keepsBlock X P (logDebug msg st) = keepsBlock X P st"
  "keepsBlock X P (st\<lparr>curLineNum := n\<rparr>) = keepsBlock X P st"
  by (simp_all add: keepsBlock_def)













end
